theory Spec2Isabelle
  imports Complex_Main "HOL-Library.Word" "HOL-Library.AList"
begin

unbundle bit_operations_syntax

section \<open>JavaScript values used by the converter\<close>

text \<open>
  A JavaScript string is a sequence of UTF-16 code units. Literals of the source are
  written with \<open>js\<close>, which maps every character of an ASCII literal to its code unit.
\<close>

type_synonym jsstring = "16 word list"

definition js :: "string \<Rightarrow> jsstring" where
  "js s = map of_char s"

text \<open>
  A JavaScript number is kept by its mathematical value. \<open>NaN\<close> and the two
  infinities are separate values; the sign of zero and the rounding of a decimal
  literal to the nearest binary64 value are not represented.
\<close>

datatype jsnum = NaN | Infinity bool | Fin rat

datatype jsval =
    JUndefined
  | JNull
  | JBool bool
  | JNumber jsnum
  | JString jsstring
  | JArray "jsval list"
  | JObject "(jsstring \<times> jsval) list"
  | JFunction jsstring

text \<open>ToBoolean: what \<open>!v\<close>, \<open>v && w\<close>, \<open>v || w\<close> and \<open>if (v)\<close> test.\<close>

fun truthy :: "jsval \<Rightarrow> bool" where
  "truthy JUndefined = False"
| "truthy JNull = False"
| "truthy (JBool b) = b"
| "truthy (JNumber NaN) = False"
| "truthy (JNumber (Infinity s)) = True"
| "truthy (JNumber (Fin q)) = (q \<noteq> 0)"
| "truthy (JString s) = (s \<noteq> [])"
| "truthy (JArray xs) = True"
| "truthy (JObject ps) = True"
| "truthy (JFunction f) = True"

section \<open>Configuration (constructor of ColladaConvert, lines 48-76)\<close>

definition SKIP_BINARY :: jsstring where
  "SKIP_BINARY = js ''-skip-binary''"

definition SUB_ANIM :: jsstring where
  "SUB_ANIM = js ''-sub-anim''"

text \<open>
  The options object \<open>opts\<close> is read only through property access, so it is modelled
  by its property lookup: \<open>opts k\<close> is the value of \<open>opts[k]\<close>, \<open>JUndefined\<close> for a
  property that is absent. Line 76 copies the resolved configuration back into
  \<open>opts\<close> for the producers of \<open>includes/\<close>; the encoder reads \<open>this.config\<close> only.
\<close>

type_synonym options = "jsstring \<Rightarrow> jsval"

record config =
  includeAttribs :: "(jsstring \<times> bool) list"
  includeBinary :: bool
  isSubAnimation :: jsval
  includeGeometry :: bool
  includeAnimation :: bool
  includeHierarchy :: bool
  includeMaterial :: bool

definition attributes :: "jsstring list" where
  "attributes = [js ''POSITION'', js ''NORMAL'', js ''TEXCOORD0'', js ''TEXCOORD1'', js ''WEIGHT'']"

text \<open>\<open>opts.k === false\<close>: strict equality with the boolean \<open>false\<close>.\<close>

definition is_false :: "jsval \<Rightarrow> bool" where
  "is_false v = (v = JBool False)"

definition constructor_config :: "options \<Rightarrow> config" where
  "constructor_config opts =
    (let c0 = \<lparr> includeAttribs = [],
                 includeBinary = \<not> truthy (opts SKIP_BINARY),
                 isSubAnimation = opts SUB_ANIM,
                 includeGeometry = False, includeAnimation = False,
                 includeHierarchy = False, includeMaterial = False \<rparr>;
         c1 = c0 \<lparr> includeAttribs := map (\<lambda>a. (a, True)) attributes \<rparr>;
         c2 = c1 \<lparr> includeGeometry := includeBinary c1 \<and> \<not> truthy (isSubAnimation c1) \<rparr>;
         c3 = c2 \<lparr> includeAnimation := includeBinary c2 \<rparr>;
         c4 = c3 \<lparr> includeHierarchy := \<not> truthy (isSubAnimation c3) \<rparr>;
         c5 = c4 \<lparr> includeMaterial := \<not> truthy (isSubAnimation c4) \<rparr>;
         c6 = (if is_false (opts (js ''includeGeometry'')) then c5 \<lparr> includeGeometry := False \<rparr> else c5);
         c7 = (if is_false (opts (js ''includeAnimation'')) then c6 \<lparr> includeAnimation := False \<rparr> else c6);
         c8 = (if is_false (opts (js ''includeHierarchy'')) then c7 \<lparr> includeHierarchy := False \<rparr> else c7);
         c9 = (if is_false (opts (js ''includeMaterial'')) then c8 \<lparr> includeMaterial := False \<rparr> else c8);
         c10 = (if is_false (opts (js ''includeNormals''))
                then c9 \<lparr> includeAttribs := AList.update (js ''NORMAL'') False (includeAttribs c9) \<rparr>
                else c9);
         c11 = (if is_false (opts (js ''includeUV''))
                then c10 \<lparr> includeAttribs :=
                       AList.update (js ''TEXCOORD1'') False
                         (AList.update (js ''TEXCOORD0'') False (includeAttribs c10)) \<rparr>
                else c10)
     in c11)"

section \<open>Plain objects used as dictionaries\<close>

text \<open>
  \<open>PARAMS\<close>, \<open>otherArgsMap\<close> and \<open>this.lights\<close> are object literals, so their prototype
  is \<open>Object.prototype\<close>. Its properties are found by every property read that misses
  the own properties; none of them is enumerable. Reading \<open>__proto__\<close> yields the
  prototype object, reading any other one yields a built-in function: all are truthy.
\<close>

definition Object_prototype_keys :: "jsstring list" where
  "Object_prototype_keys =
     [js ''constructor'', js ''__defineGetter__'', js ''__defineSetter__'',
      js ''hasOwnProperty'', js ''__lookupGetter__'', js ''__lookupSetter__'',
      js ''isPrototypeOf'', js ''propertyIsEnumerable'', js ''toString'',
      js ''valueOf'', js ''__proto__'', js ''toLocaleString'']"

text \<open>
  Own property keys are enumerated (by \<open>for ... in\<close> and \<open>Object.keys\<close>) with the array
  indices first, in ascending numeric order, then the other keys in creation order.
  An array index is the canonical decimal string of a number below \<open>2^32 - 1\<close>.
\<close>

definition is_digit :: "16 word \<Rightarrow> bool" where
  "is_digit u = (48 \<le> u \<and> u \<le> 57)"

definition decimal_value :: "jsstring \<Rightarrow> nat" where
  "decimal_value s = foldl (\<lambda>acc u. 10 * acc + (unat u - 48)) 0 s"

definition is_array_index :: "jsstring \<Rightarrow> bool" where
  "is_array_index s =
     (s \<noteq> [] \<and> list_all is_digit s \<and> (s = js ''0'' \<or> hd s \<noteq> 48)
      \<and> decimal_value s < 2 ^ 32 - 1)"

definition key_order :: "jsstring list \<Rightarrow> jsstring list" where
  "key_order ks =
     sort_key decimal_value (filter is_array_index ks) @ filter (\<lambda>k. \<not> is_array_index k) ks"

section \<open>Command line (lines 20-44 and 184-192)\<close>

text \<open>
  What the script can throw: the \<open>Error\<close> of line 40 with its message, a
  \<open>TypeError\<close> for a property read on \<open>undefined\<close> or a call of something that
  is no function, and the two range errors of the buffer writes, one for a value
  outside the range of the integer type, one for an offset outside the buffer.
\<close>

datatype js_error =
    Error jsstring
  | TypeError
  | ValueOutOfRange
  | OffsetOutOfRange

definition PARAMS :: "(jsstring \<times> jsval) list" where
  "PARAMS = [(SKIP_BINARY, JBool True), (SUB_ANIM, JBool True)]"

text \<open>
  \<open>PARAMS[key]\<close>: an own property, else a property of \<open>Object.prototype\<close>, else
  \<open>undefined\<close>.
\<close>

definition PARAMS_get :: "jsstring \<Rightarrow> jsval" where
  "PARAMS_get key =
     (case map_of PARAMS key of
        Some v \<Rightarrow> v
      | None \<Rightarrow>
          if key = js ''__proto__'' then JObject []
          else if key \<in> set Object_prototype_keys then JFunction key
          else JUndefined)"

text \<open>
  \<open>args.slice(1).reduce((result, val) => (result[val] = true, result), {})\<close>: the own
  keys of \<open>otherArgsMap\<close> in creation order, every value being \<open>true\<close>. Assigning a
  boolean to \<open>__proto__\<close> runs the setter of \<open>Object.prototype\<close>, which ignores it.
\<close>

definition set_true :: "jsstring list \<Rightarrow> jsstring \<Rightarrow> jsstring list" where
  "set_true result val =
     (if val = js ''__proto__'' then result
      else if val \<in> set result then result
      else result @ [val])"

definition otherArgsMap :: "jsstring list \<Rightarrow> jsstring list" where
  "otherArgsMap args = foldl set_true [] (drop 1 args)"

fun join :: "jsstring \<Rightarrow> jsstring list \<Rightarrow> jsstring" where
  "join sep [] = []"
| "join sep [x] = x"
| "join sep (x # y # ys) = x @ sep @ join sep (y # ys)"

definition unknown_param_message :: "jsstring \<Rightarrow> jsstring" where
  "unknown_param_message key =
     js ''Unknown param: '' @ key @ js ''. Allowed params: ''
       @ join (js '', '') (key_order (map fst PARAMS))"

text \<open>The loop of lines 38-42 over the enumerated keys of \<open>otherArgsMap\<close>.\<close>

fun check_params :: "jsstring list \<Rightarrow> js_error + unit" where
  "check_params [] = Inr ()"
| "check_params (key # keys) =
     (if \<not> truthy (PARAMS_get key) then Inl (Error (unknown_param_message key))
      else check_params keys)"

text \<open>
  The script up to the call of the XML parser. The file system is a partial map from
  paths to contents; \<open>fs.readFileSync\<close> throws where it is undefined, and on the
  \<open>undefined\<close> path of an empty argument list. What the script hands to
  \<open>parser.parseString\<close> is the file's text together with the options of line 189:
  \<open>Object.assign({directory: fileDir}, otherArgsMap)\<close>.
\<close>

record parse_request =
  xml_text :: jsstring
  request_options :: "(jsstring \<times> jsval) list"

definition object_assign :: "(jsstring \<times> jsval) list \<Rightarrow> (jsstring \<times> jsval) list \<Rightarrow> (jsstring \<times> jsval) list" where
  "object_assign target source =
     foldl (\<lambda>t k. case map_of source k of Some v \<Rightarrow> AList.update k v t | None \<Rightarrow> t)
       target (key_order (map fst source))"

definition script :: "(jsstring \<Rightarrow> jsstring option) \<Rightarrow> (jsstring \<Rightarrow> jsstring) \<Rightarrow> jsstring list \<Rightarrow> js_error + parse_request" where
  "script readFile dirname args =
     (case args of
        [] \<Rightarrow> Inl TypeError
      | dataFile # flags \<Rightarrow>
          (case readFile dataFile of
             None \<Rightarrow> Inl (Error (js ''ENOENT''))
           | Some data \<Rightarrow>
               (case check_params (key_order (otherArgsMap args)) of
                  Inl e \<Rightarrow> Inl e
                | Inr u \<Rightarrow>
                    Inr \<lparr> xml_text = data,
                          request_options =
                            object_assign [(js ''directory'', JString (dirname dataFile))]
                              (map (\<lambda>k. (k, JBool True)) (otherArgsMap args)) \<rparr>)))"

text \<open>
  Property reads on the options object built at line 189. The constructor reads only
  names that \<open>Object.prototype\<close> does not define, so a read is a lookup among the own
  properties.
\<close>

definition options_of :: "(jsstring \<times> jsval) list \<Rightarrow> options" where
  "options_of obj k = (case map_of obj k of Some v \<Rightarrow> v | None \<Rightarrow> JUndefined)"

definition cli_options :: "jsstring \<Rightarrow> jsstring list \<Rightarrow> options" where
  "cli_options fileDir flags =
     options_of (object_assign [(js ''directory'', JString fileDir)]
                   (map (\<lambda>k. (k, JBool True)) (foldl set_true [] flags)))"


section \<open>Numbers read from text: parseInt and parseFloat\<close>

text \<open>\<open>StrWhiteSpaceChar\<close>: the white space and line terminators both functions skip.\<close>

definition is_space :: "16 word \<Rightarrow> bool" where
  "is_space u =
     (u = 0x9 \<or> u = 0xA \<or> u = 0xB \<or> u = 0xC \<or> u = 0xD \<or> u = 0x20 \<or> u = 0xA0
      \<or> u = 0x1680 \<or> (0x2000 \<le> u \<and> u \<le> 0x200A) \<or> u = 0x2028 \<or> u = 0x2029
      \<or> u = 0x202F \<or> u = 0x205F \<or> u = 0x3000 \<or> u = 0xFEFF)"

definition hex_digit :: "16 word \<Rightarrow> nat option" where
  "hex_digit u =
     (if 48 \<le> u \<and> u \<le> 57 then Some (unat u - 48)
      else if 97 \<le> u \<and> u \<le> 102 then Some (unat u - 87)
      else if 65 \<le> u \<and> u \<le> 70 then Some (unat u - 55)
      else None)"

definition radix_digit :: "nat \<Rightarrow> 16 word \<Rightarrow> nat option" where
  "radix_digit radix u =
     (case hex_digit u of
        None \<Rightarrow> None
      | Some d \<Rightarrow> if d < radix then Some d else None)"

definition radix_value :: "nat \<Rightarrow> jsstring \<Rightarrow> nat" where
  "radix_value radix ds =
     foldl (\<lambda>acc u. radix * acc + (case radix_digit radix u of Some d \<Rightarrow> d | None \<Rightarrow> 0)) 0 ds"

text \<open>An optional sign: whether it is a minus, and the rest of the string.\<close>

definition read_sign :: "jsstring \<Rightarrow> bool \<times> jsstring" where
  "read_sign s =
     (case s of
        [] \<Rightarrow> (False, [])
      | u # r \<Rightarrow> if u = 45 then (True, r) else if u = 43 then (False, r) else (False, s))"

text \<open>
  \<open>parseInt(val)\<close> with no radix argument: white space, a sign, an optional
  \<open>0x\<close> or \<open>0X\<close> that selects radix 16, then the longest run of digits; \<open>NaN\<close> when
  that run is empty.
\<close>

definition parseInt :: "jsstring \<Rightarrow> jsnum" where
  "parseInt s =
     (let (neg, s2) = read_sign (dropWhile is_space s);
          (radix, s3) =
            (case s2 of
               a # b # r \<Rightarrow> if a = 48 \<and> (b = 120 \<or> b = 88) then (16, r) else (10, s2)
             | _ \<Rightarrow> (10, s2));
          ds = takeWhile (\<lambda>u. radix_digit radix u \<noteq> None) s3
      in if ds = [] then NaN
         else Fin (of_int ((if neg then - 1 else 1) * int (radix_value radix ds))))"

text \<open>
  \<open>parseFloat(string)\<close>: white space, then the longest prefix that is a
  \<open>StrDecimalLiteral\<close>: a sign, then \<open>Infinity\<close> or digits with an optional fraction
  and an optional exponent (an exponent counts only when a digit follows it).
\<close>

definition scale10 :: "rat \<Rightarrow> int \<Rightarrow> rat" where
  "scale10 q e = (if 0 \<le> e then q * 10 ^ nat e else q / 10 ^ nat (- e))"

definition read_exponent :: "jsstring \<Rightarrow> int" where
  "read_exponent s =
     (case s of
        [] \<Rightarrow> 0
      | u # r \<Rightarrow>
          if u = 101 \<or> u = 69 then
            (let (neg, r2) = read_sign r; ds = takeWhile is_digit r2
             in if ds = [] then 0 else (if neg then - 1 else 1) * int (decimal_value ds))
          else 0)"

definition parseFloat :: "jsstring \<Rightarrow> jsnum" where
  "parseFloat s =
     (let (neg, s2) = read_sign (dropWhile is_space s);
          ip = takeWhile is_digit s2;
          s3 = dropWhile is_digit s2;
          (fp, s4) =
            (case s3 of
               [] \<Rightarrow> ([], s3)
             | u # r \<Rightarrow> if u = 46 then (takeWhile is_digit r, dropWhile is_digit r) else ([], s3))
      in if take 8 s2 = js ''Infinity'' then Infinity neg
         else if ip = [] \<and> fp = [] then NaN
         else
           (let m = of_nat (decimal_value (ip @ fp)) / 10 ^ length fp;
                v = scale10 m (read_exponent s4)
            in Fin (if neg then - v else v)))"

text \<open>\<open>str.split(' ')\<close>: the pieces between single spaces, empty pieces included.\<close>

fun split_space :: "jsstring \<Rightarrow> jsstring list" where
  "split_space [] = [[]]"
| "split_space (u # us) =
     (if u = 32 then [] # split_space us
      else (case split_space us of
              p # ps \<Rightarrow> (u # p) # ps
            | [] \<Rightarrow> [[u]]))"

section \<open>The parsed document\<close>

text \<open>
  What \<open>xml2js\<close> hands over: an element without attributes and children is a string
  (its text, trimmed); any other element is an object with the attributes under \<open>$\<close>
  (absent when there are none) and, for every child name, the array of the children
  of that name.
\<close>

datatype node =
    Text jsstring
  | Elem "(jsstring \<times> jsstring) list option" "(jsstring \<times> node list) list"

text \<open>\<open>n.name\<close> for a child name: \<open>None\<close> is \<open>undefined\<close>.\<close>

fun child :: "node \<Rightarrow> jsstring \<Rightarrow> node list option" where
  "child (Text s) name = None"
| "child (Elem attrs cs) name = map_of cs name"

text \<open>\<open>arr[0]\<close>: \<open>None\<close> is \<open>undefined\<close>.\<close>

fun first :: "node list \<Rightarrow> node option" where
  "first [] = None"
| "first (n # ns) = Some n"

text \<open>ToBoolean of a node or \<open>undefined\<close>: only \<open>undefined\<close> and the empty string are falsy.\<close>

fun truthy_node :: "node option \<Rightarrow> bool" where
  "truthy_node None = False"
| "truthy_node (Some (Text s)) = (s \<noteq> [])"
| "truthy_node (Some (Elem attrs cs)) = True"

section \<open>ColladaLighting (lines 193-253)\<close>

datatype light_type = Point | Spot

record light =
  light_id :: "jsstring option"
  color :: "jsnum list"
  light_type :: light_type
  coneAngle :: "jsnum option"

text \<open>
  \<open>this.lights\<close> starts as \<open>{}\<close>. An assignment \<open>this.lights[id] = data\<close> creates or
  overwrites an own property, except for the key \<open>__proto__\<close>: there the setter of
  \<open>Object.prototype\<close> runs and makes \<open>data\<close> the prototype of \<open>this.lights\<close>.
\<close>

record lights_object =
  own :: "(jsstring \<times> light) list"
  prototype :: "light option"

definition empty_lights :: lights_object where
  "empty_lights = \<lparr> own = [], prototype = None \<rparr>"

text \<open>The property key of \<open>this.lights[id]\<close>: \<open>ToString(id)\<close>.\<close>

definition property_key :: "jsstring option \<Rightarrow> jsstring" where
  "property_key i = (case i of None \<Rightarrow> js ''undefined'' | Some s \<Rightarrow> s)"

definition lights_set :: "lights_object \<Rightarrow> jsstring \<Rightarrow> light \<Rightarrow> lights_object" where
  "lights_set ls key data =
     (if key = js ''__proto__'' then ls \<lparr> prototype := Some data \<rparr>
      else ls \<lparr> own := AList.update key data (own ls) \<rparr>)"

text \<open>\<open>techniqueCommon.point && techniqueCommon.point[0]\<close>, and the same for \<open>spot\<close>.\<close>

definition technique :: "node \<Rightarrow> jsstring \<Rightarrow> node option" where
  "technique techniqueCommon name =
     (case child techniqueCommon name of
        None \<Rightarrow> None
      | Some arr \<Rightarrow> first arr)"

text \<open>
  \<open>light.color[0].split(' ').map((val) => parseInt(val))\<close>; a \<open>TypeError\<close> where
  \<open>color\<close> is missing or \<open>color[0]\<close> is not a string.
\<close>

definition read_color :: "node \<Rightarrow> js_error + jsnum list" where
  "read_color light =
     (case child light (js ''color'') of
        None \<Rightarrow> Inl TypeError
      | Some arr \<Rightarrow>
          (case first arr of
             Some (Text s) \<Rightarrow> Inr (map parseInt (split_space s))
           | _ \<Rightarrow> Inl TypeError))"

text \<open>
  \<open>parseFloat(spot.falloff_angle[0])\<close>; the argument is converted to a string first,
  and neither \<open>undefined\<close> nor an object gives a string that starts with a number.
\<close>

definition read_coneAngle :: "node \<Rightarrow> js_error + jsnum" where
  "read_coneAngle spot =
     (case child spot (js ''falloff_angle'') of
        None \<Rightarrow> Inl TypeError
      | Some arr \<Rightarrow>
          (case first arr of
             Some (Text s) \<Rightarrow> Inr (parseFloat s)
           | _ \<Rightarrow> Inr NaN))"

text \<open>
  Lines 219-235 of the loop body, once \<open>id\<close>, \<open>point\<close> and \<open>spot\<close> are read:
  \<open>light = point || spot\<close>, the \<open>continue\<close> of line 220, the record and its storing.
\<close>

definition store_light ::
  "lights_object \<Rightarrow> jsstring option \<Rightarrow> node option \<Rightarrow> node option \<Rightarrow> js_error + lights_object" where
  "store_light ls i point spot =
     (case (if truthy_node point then point else spot) of
        None \<Rightarrow> Inr ls
      | Some light \<Rightarrow>
          if \<not> truthy_node (Some light) then Inr ls
          else
            (case read_color light of
               Inl e \<Rightarrow> Inl e
             | Inr c \<Rightarrow>
                 (let data = \<lparr> light_id = i, color = c, light_type = Point, coneAngle = None \<rparr>
                  in case (if truthy_node spot then spot else None) of
                       None \<Rightarrow> Inr (lights_set ls (property_key i) data)
                     | Some sp \<Rightarrow>
                         (case read_coneAngle sp of
                            Inl e \<Rightarrow> Inl e
                          | Inr a \<Rightarrow>
                              Inr (lights_set ls (property_key i)
                                     (data \<lparr> light_type := Spot, coneAngle := Some a \<rparr>))))))"

text \<open>
  One iteration of the loop of \<open>addLights\<close> (lines 213-235). Reading \<open>lightData.$.id\<close>
  or \<open>lightData.technique_common[0]\<close> throws where \<open>$\<close> or \<open>technique_common\<close> is
  missing, and so does reading \<open>point\<close> of an \<open>undefined\<close> first technique.
\<close>

definition addLight :: "lights_object \<Rightarrow> node \<Rightarrow> js_error + lights_object" where
  "addLight ls lightData =
     (case lightData of
        Text s \<Rightarrow> Inl TypeError
      | Elem attrs cs \<Rightarrow>
          (case attrs of
             None \<Rightarrow> Inl TypeError
           | Some a \<Rightarrow>
               (case map_of cs (js ''technique_common'') of
                  None \<Rightarrow> Inl TypeError
                | Some tcs \<Rightarrow>
                    (case first tcs of
                       None \<Rightarrow> Inl TypeError
                     | Some techniqueCommon \<Rightarrow>
                         store_light ls (map_of a (js ''id''))
                           (technique techniqueCommon (js ''point''))
                           (technique techniqueCommon (js ''spot''))))))"

fun addLights_loop :: "lights_object \<Rightarrow> node list \<Rightarrow> js_error + lights_object" where
  "addLights_loop ls [] = Inr ls"
| "addLights_loop ls (lightData # rest) =
     (case addLight ls lightData of
        Inl e \<Rightarrow> Inl e
      | Inr ls' \<Rightarrow> addLights_loop ls' rest)"

definition addLights :: "lights_object \<Rightarrow> node list option \<Rightarrow> js_error + lights_object" where
  "addLights ls lightList =
     (case lightList of
        None \<Rightarrow> Inr ls
      | Some l \<Rightarrow> addLights_loop ls l)"

text \<open>The constructor (lines 195-205): the lights of \<open>root.library_lights[0].light\<close>.\<close>

definition ColladaLighting :: "node \<Rightarrow> js_error + lights_object" where
  "ColladaLighting root_node =
     (case child root_node (js ''library_lights'') of
        None \<Rightarrow> Inr empty_lights
      | Some libraryLights \<Rightarrow>
          (case first libraryLights of
             None \<Rightarrow> Inl TypeError
           | Some lib \<Rightarrow> addLights empty_lights (child lib (js ''light''))))"

text \<open>A light record as a value, its properties in creation order.\<close>

definition type_name :: "light_type \<Rightarrow> jsstring" where
  "type_name t = (case t of Point \<Rightarrow> js ''point'' | Spot \<Rightarrow> js ''spot'')"

definition light_properties :: "light \<Rightarrow> (jsstring \<times> jsval) list" where
  "light_properties d =
     [(js ''id'', case light_id d of None \<Rightarrow> JUndefined | Some s \<Rightarrow> JString s),
      (js ''color'', JArray (map JNumber (color d))),
      (js ''type'', JString (type_name (light_type d)))]
     @ (case coneAngle d of None \<Rightarrow> [] | Some a \<Rightarrow> [(js ''coneAngle'', JNumber a)])"

text \<open>
  \<open>getJSON\<close> (lines 239-251). \<open>for (var key in this.lights)\<close> visits the own keys and
  then the enumerable properties of the prototype that no own property shadows; these
  exist only when a light record has become the prototype.
\<close>

definition lights_for_in :: "lights_object \<Rightarrow> jsval list" where
  "lights_for_in ls =
     map (\<lambda>k. JObject (light_properties (the (map_of (own ls) k)))) (key_order (map fst (own ls)))
     @ (case prototype ls of
          None \<Rightarrow> []
        | Some d \<Rightarrow> map snd (filter (\<lambda>(k, v). k \<notin> fst ` set (own ls)) (light_properties d)))"

definition lights_getJSON :: "lights_object \<Rightarrow> jsval" where
  "lights_getJSON ls =
     (let result = lights_for_in ls
      in if result = [] then JUndefined else JArray result)"

text \<open>
  A light record of the shape the input contract promises (attributes and a first
  \<open>technique_common\<close>) that has neither a usable \<open>point\<close> nor a usable \<open>spot\<close>
  technique: an ambient or directional light.
\<close>

definition unsupported :: "node \<Rightarrow> bool" where
  "unsupported lightData =
     (case lightData of
        Text s \<Rightarrow> False
      | Elem attrs cs \<Rightarrow>
          (case attrs of
             None \<Rightarrow> False
           | Some a \<Rightarrow>
               (case map_of cs (js ''technique_common'') of
                  None \<Rightarrow> False
                | Some tcs \<Rightarrow>
                    (case first tcs of
                       None \<Rightarrow> False
                     | Some techniqueCommon \<Rightarrow>
                         \<not> truthy_node (technique techniqueCommon (js ''point''))
                         \<and> \<not> truthy_node (technique techniqueCommon (js ''spot''))))))"

text \<open>The light records the constructor hands to \<open>addLights\<close>; none when it hands over none.\<close>

definition library_lights :: "node \<Rightarrow> node list" where
  "library_lights root_node =
     (case child root_node (js ''library_lights'') of
        None \<Rightarrow> []
      | Some libraryLights \<Rightarrow>
          (case first libraryLights of
             None \<Rightarrow> []
           | Some lib \<Rightarrow> (case child lib (js ''light'') of None \<Rightarrow> [] | Some l \<Rightarrow> l)))"

text \<open>Whether \<open>this.lights\<close> holds anything that \<open>for ... in\<close> can visit.\<close>

definition has_lights :: "lights_object \<Rightarrow> bool" where
  "has_lights ls = (own ls \<noteq> [] \<or> prototype ls \<noteq> None)"

section \<open>JSON.stringify\<close>

text \<open>The decimal digits of a natural number.\<close>

fun decimal :: "nat \<Rightarrow> jsstring" where
  "decimal n = (if n < 10 then [of_nat (48 + n)] else decimal (n div 10) @ [of_nat (48 + n mod 10)])"

declare decimal.simps [simp del]

text \<open>
  \<open>Number::toString\<close> as \<open>JSON.stringify\<close> uses it. A number is modelled by the
  exact value of the text it was read from. An integer of magnitude at most \<open>2^53\<close>
  is a binary64 value as it stands and prints as its decimal digits. Rounding to
  binary64 and the shortest decimal that reads back to the rounded value are not
  modelled: every other finite number prints as \<open>fmt\<close> says, a parameter.
\<close>

definition number_to_string :: "(rat \<Rightarrow> jsstring) \<Rightarrow> rat \<Rightarrow> jsstring" where
  "number_to_string fmt q =
     (if q = of_int \<lfloor>q\<rfloor> \<and> \<bar>q\<bar> \<le> 2 ^ 53
      then (if q < 0 then js ''-'' else []) @ decimal (nat \<bar>\<lfloor>q\<rfloor>\<bar>)
      else fmt q)"

definition hex_char :: "nat \<Rightarrow> 16 word" where
  "hex_char d = (if d < 10 then of_nat (48 + d) else of_nat (87 + d))"

definition unicode_escape :: "16 word \<Rightarrow> jsstring" where
  "unicode_escape u =
     [0x5C, 0x75] @ [hex_char (unat u div 4096), hex_char (unat u div 256 mod 16),
                   hex_char (unat u div 16 mod 16), hex_char (unat u mod 16)]"

definition is_high_surrogate :: "16 word \<Rightarrow> bool" where
  "is_high_surrogate u = (0xD800 \<le> u \<and> u \<le> 0xDBFF)"

definition is_low_surrogate :: "16 word \<Rightarrow> bool" where
  "is_low_surrogate u = (0xDC00 \<le> u \<and> u \<le> 0xDFFF)"

text \<open>
  The escapes of \<open>QuoteJSONString\<close>, written as code units: \<open>0x5C\<close> is the backslash,
  \<open>0x22\<close> the double quote, and \<open>0x62\<close>, \<open>0x66\<close>, \<open>0x6E\<close>, \<open>0x72\<close>, \<open>0x74\<close>, \<open>0x75\<close> are
  the letters b, f, n, r, t, u.
\<close>

definition escape_unit :: "16 word \<Rightarrow> jsstring" where
  "escape_unit u =
     (if u = 0x22 then [0x5C, 0x22]
      else if u = 0x5C then [0x5C, 0x5C]
      else if u = 0x8 then [0x5C, 0x62]
      else if u = 0xC then [0x5C, 0x66]
      else if u = 0xA then [0x5C, 0x6E]
      else if u = 0xD then [0x5C, 0x72]
      else if u = 0x9 then [0x5C, 0x74]
      else if u < 0x20 \<or> is_high_surrogate u \<or> is_low_surrogate u then unicode_escape u
      else [u])"

text \<open>
  \<open>QuoteJSONString\<close> without the enclosing quotes: a surrogate pair is copied, a lone
  surrogate is escaped.
\<close>

fun quote_units :: "jsstring \<Rightarrow> jsstring" where
  "quote_units [] = []"
| "quote_units [u] = escape_unit u"
| "quote_units (u # v # us) =
     (if is_high_surrogate u \<and> is_low_surrogate v then u # v # quote_units us
      else escape_unit u @ quote_units (v # us))"

definition quote :: "jsstring \<Rightarrow> jsstring" where
  "quote s = [0x22] @ quote_units s @ [0x22]"

text \<open>The own properties of an object in the order of \<open>Object.keys\<close>.\<close>

definition entries :: "(jsstring \<times> 'a) list \<Rightarrow> (jsstring \<times> 'a) list" where
  "entries ps =
     sort_key (\<lambda>p. decimal_value (fst p)) (filter (\<lambda>p. is_array_index (fst p)) ps)
     @ filter (\<lambda>p. \<not> is_array_index (fst p)) ps"

text \<open>
  \<open>SerializeJSONProperty\<close>: \<open>None\<close> is the result \<open>undefined\<close>, which omits a
  property of an object and prints as \<open>null\<close> inside an array.
\<close>

function (sequential) serialize :: "(rat \<Rightarrow> jsstring) \<Rightarrow> jsval \<Rightarrow> jsstring option" where
  "serialize fmt JUndefined = None"
| "serialize fmt (JFunction f) = None"
| "serialize fmt JNull = Some (js ''null'')"
| "serialize fmt (JBool b) = Some (if b then js ''true'' else js ''false'')"
| "serialize fmt (JNumber (Fin q)) = Some (number_to_string fmt q)"
| "serialize fmt (JNumber n) = Some (js ''null'')"
| "serialize fmt (JString s) = Some (quote s)"
| "serialize fmt (JArray xs) =
     Some (js ''['' @ join (js '','')
             (map (\<lambda>x. case serialize fmt x of None \<Rightarrow> js ''null'' | Some t \<Rightarrow> t) xs)
           @ js '']'')"
| "serialize fmt (JObject ps) =
     Some (js ''{'' @ join (js '','')
             (concat (map (\<lambda>p. case serialize fmt (snd p) of
                                   None \<Rightarrow> []
                                 | Some t \<Rightarrow> [quote (fst p) @ js '':'' @ t])
                          (entries ps)))
           @ js ''}'')"
  by pat_completeness auto
termination
proof (relation "measure (\<lambda>(fmt, v). size v)", goal_cases)
  case 1
  show ?case by simp
next
  case (2 fmt xs x)
  then show ?case by (induction xs) auto
next
  case (3 fmt ps p)
  then have "p \<in> set ps" by (auto simp: entries_def)
  then show ?case by (induction ps) auto
qed

definition JSON_stringify :: "(rat \<Rightarrow> jsstring) \<Rightarrow> jsval \<Rightarrow> jsstring" where
  "JSON_stringify fmt v = (case serialize fmt v of None \<Rightarrow> js ''undefined'' | Some t \<Rightarrow> t)"

text \<open>The keys that the serialisation of an object shows.\<close>

fun omitted :: "jsval \<Rightarrow> bool" where
  "omitted JUndefined = True"
| "omitted (JFunction f) = True"
| "omitted v = False"

definition serialized_keys :: "(jsstring \<times> jsval) list \<Rightarrow> jsstring list" where
  "serialized_keys ps = map fst (filter (\<lambda>p. \<not> omitted (snd p)) (entries ps))"

text \<open>
  The members that the text of an object consists of: one \<open>"key":value\<close> for every
  property that is not omitted.
\<close>

definition members :: "(rat \<Rightarrow> jsstring) \<Rightarrow> (jsstring \<times> jsval) list \<Rightarrow> jsstring list" where
  "members fmt ps =
     map (\<lambda>p. quote (fst p) @ js '':'' @ JSON_stringify fmt (snd p))
       (filter (\<lambda>p. \<not> omitted (snd p)) (entries ps))"

section \<open>JSON texts\<close>

text \<open>
  The JSON grammar (ECMA-404), over UTF-16 code units and without the optional white
  space between tokens, which \<open>JSON.stringify\<close> without an indent never writes. A
  text derivable in it is one that \<open>JSON.parse\<close> accepts.

  Between the quotes of a string a backslash (\<open>0x5C\<close>) starts an escape: it is
  followed by a quote, a backslash, a slash or one of the letters b, f, n, r, t, or
  by the letter u and four hexadecimal digits. Any other character stands for
  itself unless it is a quote or a control character. A character outside the basic
  plane is a surrogate pair; a surrogate on its own is no character, so it is
  refused.
\<close>

definition is_hex_digit :: "16 word \<Rightarrow> bool" where
  "is_hex_digit u = (hex_digit u \<noteq> None)"

definition simple_escapes :: "16 word list" where
  "simple_escapes = [0x22, 0x5C, 0x2F, 0x62, 0x66, 0x6E, 0x72, 0x74]"

fun json_chars :: "jsstring \<Rightarrow> bool" where
  "json_chars [] = True"
| "json_chars (u # us) =
     (if u = 0x5C then
        (case us of
           [] \<Rightarrow> False
         | e # r \<Rightarrow>
             if e = 0x75 then
               (case r of
                  a # b # c # d # r' \<Rightarrow>
                    is_hex_digit a \<and> is_hex_digit b \<and> is_hex_digit c \<and> is_hex_digit d
                    \<and> json_chars r'
                | _ \<Rightarrow> False)
             else e \<in> set simple_escapes \<and> json_chars r)
      else if is_high_surrogate u then
        (case us of
           [] \<Rightarrow> False
         | v # r \<Rightarrow> is_low_surrogate v \<and> json_chars r)
      else 0x20 \<le> u \<and> u \<noteq> 0x22 \<and> \<not> is_low_surrogate u \<and> json_chars us)"

definition json_string :: "jsstring \<Rightarrow> bool" where
  "json_string s =
     (2 \<le> length s \<and> hd s = 0x22 \<and> last s = 0x22 \<and> json_chars (butlast (tl s)))"

text \<open>
  A number: an optional minus, an integer part without a leading zero, an optional
  fraction and an optional exponent.
\<close>

definition json_digits :: "jsstring \<Rightarrow> bool" where
  "json_digits ds = (ds \<noteq> [] \<and> list_all is_digit ds)"

definition json_int :: "jsstring \<Rightarrow> bool" where
  "json_int ds = (json_digits ds \<and> (hd ds = 0x30 \<longrightarrow> length ds = 1))"

definition json_frac :: "jsstring \<Rightarrow> bool" where
  "json_frac s = (s = [] \<or> (hd s = 0x2E \<and> json_digits (tl s)))"

definition json_exp :: "jsstring \<Rightarrow> bool" where
  "json_exp s =
     (s = [] \<or>
      ((hd s = 0x65 \<or> hd s = 0x45)
       \<and> json_digits (if take 1 (tl s) = [0x2B] \<or> take 1 (tl s) = [0x2D] then tl (tl s) else tl s)))"

definition json_number :: "jsstring \<Rightarrow> bool" where
  "json_number s =
     (let s1 = (if take 1 s = [0x2D] then tl s else s);
          ip = takeWhile is_digit s1;
          s2 = dropWhile is_digit s1;
          fp = (if take 1 s2 = [0x2E] then 0x2E # takeWhile is_digit (tl s2) else []);
          ep = drop (length fp) s2
      in json_int ip \<and> json_frac fp \<and> json_exp ep)"

text \<open>
  Values, objects and arrays. The members of an object and the elements of an array
  are separated by commas; a member is a string, a colon and a value.
\<close>

inductive json_value :: "jsstring \<Rightarrow> bool"
  and json_object :: "jsstring \<Rightarrow> bool"
  and json_array :: "jsstring \<Rightarrow> bool"
  and json_member :: "jsstring \<Rightarrow> bool"
  and json_members :: "jsstring \<Rightarrow> bool"
  and json_elements :: "jsstring \<Rightarrow> bool"
where
  json_null: "json_value (js ''null'')"
| json_true: "json_value (js ''true'')"
| json_false: "json_value (js ''false'')"
| json_num: "json_number s \<Longrightarrow> json_value s"
| json_str: "json_string s \<Longrightarrow> json_value s"
| json_arr: "json_array s \<Longrightarrow> json_value s"
| json_obj: "json_object s \<Longrightarrow> json_value s"
| empty_object: "json_object (js ''{}'')"
| object: "json_members m \<Longrightarrow> json_object (js ''{'' @ m @ js ''}'')"
| empty_array: "json_array (js ''[]'')"
| array: "json_elements e \<Longrightarrow> json_array (js ''['' @ e @ js '']'')"
| member: "json_string k \<Longrightarrow> json_value v \<Longrightarrow> json_member (k @ js '':'' @ v)"
| one_member: "json_member m \<Longrightarrow> json_members m"
| more_members: "json_member m \<Longrightarrow> json_members r \<Longrightarrow> json_members (m @ js '','' @ r)"
| one_element: "json_value v \<Longrightarrow> json_elements v"
| more_elements: "json_value v \<Longrightarrow> json_elements r \<Longrightarrow> json_elements (v @ js '','' @ r)"

code_pred json_value .

text \<open>
  A string of code units in which every surrogate belongs to a pair, that is, a
  string of Unicode characters; and the code units of ASCII.
\<close>

fun well_formed :: "jsstring \<Rightarrow> bool" where
  "well_formed [] = True"
| "well_formed [u] = (\<not> is_high_surrogate u \<and> \<not> is_low_surrogate u)"
| "well_formed (u # v # us) =
     (if is_high_surrogate u \<and> is_low_surrogate v then well_formed us
      else \<not> is_high_surrogate u \<and> \<not> is_low_surrogate u \<and> well_formed (v # us))"

definition is_ascii :: "16 word \<Rightarrow> bool" where
  "is_ascii u = (u < 0x80)"


section \<open>Buffers\<close>

type_synonym byte = "8 word"

text \<open>
  UTF-8, as \<open>Buffer.byteLength\<close> and \<open>buffer.write\<close> encode a string: a surrogate pair
  is one code point of four bytes, a lone surrogate is written as U+FFFD.
\<close>

definition utf8_code_point :: "nat \<Rightarrow> byte list" where
  "utf8_code_point c =
     (if c < 0x80 then [of_nat c]
      else if c < 0x800 then [of_nat (0xC0 + c div 64), of_nat (0x80 + c mod 64)]
      else if c < 0x10000 then
        [of_nat (0xE0 + c div 4096), of_nat (0x80 + c div 64 mod 64), of_nat (0x80 + c mod 64)]
      else
        [of_nat (0xF0 + c div 262144), of_nat (0x80 + c div 4096 mod 64),
         of_nat (0x80 + c div 64 mod 64), of_nat (0x80 + c mod 64)])"

definition utf8_unit :: "16 word \<Rightarrow> byte list" where
  "utf8_unit u =
     (if is_high_surrogate u \<or> is_low_surrogate u then [0xEF, 0xBF, 0xBD]
      else utf8_code_point (unat u))"

definition utf8_pair :: "16 word \<Rightarrow> 16 word \<Rightarrow> byte list" where
  "utf8_pair u v = utf8_code_point (0x10000 + (unat u - 0xD800) * 1024 + (unat v - 0xDC00))"

fun utf8 :: "jsstring \<Rightarrow> byte list" where
  "utf8 [] = []"
| "utf8 [u] = utf8_unit u"
| "utf8 (u # v # us) =
     (if is_high_surrogate u \<and> is_low_surrogate v then utf8_pair u v @ utf8 us
      else utf8_unit u @ utf8 (v # us))"

definition byteLength :: "jsstring \<Rightarrow> nat" where
  "byteLength s = length (utf8 s)"

text \<open>
  The bytes \<open>buffer.write\<close> stores when at most \<open>n\<close> bytes may be written: whole
  characters only, up to the first one that does not fit.
\<close>

fun utf8_fit :: "nat \<Rightarrow> jsstring \<Rightarrow> byte list" where
  "utf8_fit n [] = []"
| "utf8_fit n [u] = (if length (utf8_unit u) \<le> n then utf8_unit u else [])"
| "utf8_fit n (u # v # us) =
     (if is_high_surrogate u \<and> is_low_surrogate v then
        (if length (utf8_pair u v) \<le> n
         then utf8_pair u v @ utf8_fit (n - length (utf8_pair u v)) us else [])
      else
        (if length (utf8_unit u) \<le> n
         then utf8_unit u @ utf8_fit (n - length (utf8_unit u)) (v # us) else []))"

text \<open>
  A buffer is its cells. \<open>new Buffer(size)\<close> does not initialise them: a cell is
  \<open>None\<close> until a write stores a byte in it.
\<close>

type_synonym buffer = "byte option list"

definition new_Buffer :: "nat \<Rightarrow> buffer" where
  "new_Buffer n = replicate n None"

definition store :: "buffer \<Rightarrow> nat \<Rightarrow> byte list \<Rightarrow> buffer" where
  "store buf offset bs = take offset buf @ map Some bs @ drop (offset + length bs) buf"

definition be32 :: "32 word \<Rightarrow> byte list" where
  "be32 w = [ucast (drop_bit 24 w), ucast (drop_bit 16 w), ucast (drop_bit 8 w), ucast w]"

text \<open>
  \<open>buf.writeUInt32BE(value, offset)\<close> and \<open>buf.writeUInt16BE(value, offset)\<close>: the value
  is validated against the range of the integer type, then the offset against the
  length of the buffer; either check throws. A valid value is stored most
  significant byte first.
\<close>

definition writeUInt32BE :: "buffer \<Rightarrow> int \<Rightarrow> nat \<Rightarrow> js_error + buffer" where
  "writeUInt32BE buf v offset =
     (if v > 0xFFFFFFFF \<or> v < 0 then Inl ValueOutOfRange
      else if offset + 4 > length buf then Inl OffsetOutOfRange
      else Inr (store buf offset (be32 (of_int v))))"

definition writeUInt16BE :: "buffer \<Rightarrow> int \<Rightarrow> nat \<Rightarrow> js_error + buffer" where
  "writeUInt16BE buf v offset =
     (if v > 0xFFFF \<or> v < 0 then Inl ValueOutOfRange
      else if offset + 2 > length buf then Inl OffsetOutOfRange
      else Inr (store buf offset [of_int (v div 256), of_int v]))"

text \<open>
  \<open>buf.writeFloatBE(value, offset)\<close>. Rounding a number to binary32 is not modelled:
  \<open>float_bits\<close>, a parameter, gives the 32 bits of the rounded value. They are stored most
  significant byte first; an offset that leaves no room for four bytes throws.
\<close>

definition writeFloatBE :: "('n \<Rightarrow> 32 word) \<Rightarrow> buffer \<Rightarrow> 'n \<Rightarrow> nat \<Rightarrow> js_error + buffer" where
  "writeFloatBE float_bits buf v offset =
     (if offset + 4 > length buf then Inl OffsetOutOfRange
      else Inr (store buf offset (be32 (float_bits v))))"

text \<open>
  \<open>buf.write(string, offset, length)\<close>: throws when the offset is beyond the buffer,
  else stores the UTF-8 bytes that fit into \<open>length\<close> bytes and into the buffer, and
  returns how many it stored.
\<close>

definition buffer_write :: "buffer \<Rightarrow> jsstring \<Rightarrow> nat \<Rightarrow> nat \<Rightarrow> js_error + buffer \<times> nat" where
  "buffer_write buf string offset len =
     (if offset > length buf then Inl OffsetOutOfRange
      else (let bs = utf8_fit (min len (length buf - offset)) string
            in Inr (store buf offset bs, length bs)))"

text \<open>\<open>buf.readUInt32BE(0)\<close> on the bytes of a file, used to state what a reader sees.\<close>

definition readUInt32BE :: "byte list \<Rightarrow> nat" where
  "readUInt32BE bs =
     ((unat (bs ! 0) * 256 + unat (bs ! 1)) * 256 + unat (bs ! 2)) * 256 + unat (bs ! 3)"

text \<open>
  Reading UTF-8 back, strictly: the code units of a code point
  (\<open>String.fromCodePoint\<close>), and the decoder, which refuses a stray or missing
  continuation byte, an overlong form, an encoded surrogate and a code point above
  U+10FFFF.
\<close>

definition code_units :: "nat \<Rightarrow> jsstring" where
  "code_units c =
     (if c < 0x10000 then [of_nat c]
      else [of_nat (0xD800 + (c - 0x10000) div 1024), of_nat (0xDC00 + (c - 0x10000) mod 1024)])"

definition is_continuation :: "byte \<Rightarrow> bool" where
  "is_continuation b = (0x80 \<le> unat b \<and> unat b \<le> 0xBF)"

definition decoded :: "nat \<Rightarrow> jsstring option \<Rightarrow> jsstring option" where
  "decoded c rest = map_option (\<lambda>r. code_units c @ r) rest"

fun utf8_decode :: "byte list \<Rightarrow> jsstring option" where
  "utf8_decode [] = Some []"
| "utf8_decode (a # bs) =
     (if unat a < 0x80 then decoded (unat a) (utf8_decode bs)
      else
        (case bs of
           [] \<Rightarrow> None
         | b # bs1 \<Rightarrow>
             if 0xC2 \<le> unat a \<and> unat a \<le> 0xDF then
               (if is_continuation b
                then decoded ((unat a - 0xC0) * 64 + (unat b - 0x80)) (utf8_decode bs1)
                else None)
             else
               (case bs1 of
                  [] \<Rightarrow> None
                | c # bs2 \<Rightarrow>
                    if 0xE0 \<le> unat a \<and> unat a \<le> 0xEF then
                      (let p = ((unat a - 0xE0) * 64 + (unat b - 0x80)) * 64 + (unat c - 0x80)
                       in if is_continuation b \<and> is_continuation c \<and> 0x800 \<le> p
                             \<and> \<not> (0xD800 \<le> p \<and> p \<le> 0xDFFF)
                          then decoded p (utf8_decode bs2) else None)
                    else
                      (case bs2 of
                         [] \<Rightarrow> None
                       | d # bs3 \<Rightarrow>
                           if 0xF0 \<le> unat a \<and> unat a \<le> 0xF4 then
                             (let p = (((unat a - 0xF0) * 64 + (unat b - 0x80)) * 64
                                        + (unat c - 0x80)) * 64 + (unat d - 0x80)
                              in if is_continuation b \<and> is_continuation c \<and> is_continuation d
                                    \<and> 0x10000 \<le> p \<and> p \<le> 0x10FFFF
                                 then decoded p (utf8_decode bs3) else None)
                           else None))))"

text \<open>
  What a reader of the file gets who reads four bytes, takes them as a big-endian
  length and decodes exactly that many bytes after them. A cell that no write has
  filled holds no determined byte, so a read that meets one gives nothing.
\<close>

definition read_header :: "buffer \<Rightarrow> jsstring option" where
  "read_header file =
     (case those (take 4 file) of
        None \<Rightarrow> None
      | Some prefix \<Rightarrow>
          if length prefix < 4 then None
          else
            (case those (take (readUInt32BE prefix) (drop 4 file)) of
               None \<Rightarrow> None
             | Some bytes \<Rightarrow>
                 if length bytes < readUInt32BE prefix then None else utf8_decode bytes))"

section \<open>The producers the encoder consults\<close>

text \<open>
  The geometry and animation producers and the hierarchy builder live in
  \<open>includes/\<close>, outside the file at hand. The encoder uses them through the fields
  and methods below only, so each is the record of what those return. The elements
  of \<open>vertices\<close> and of the animation sequences are numbers of an unspecified type
  \<open>'n\<close>, turned into bits by \<open>float_bits\<close> alone; indices are integers.
\<close>

record 'n segment =
  indices :: "int list"
  vertices :: "'n list"

record 'n ColladaGeometry =
  geometryData :: "'n segment list"
  geometry_byteSize :: nat
  geometry_getJSON :: jsval

record 'n ColladaAnimation =
  hasAnimation :: bool
  animationOrder :: "jsstring list"
  getAnimationData :: "jsstring \<Rightarrow> 'n list"
  animation_byteSize :: nat
  animation_getJSON :: jsval

record 'n ColladaConvert =
  config :: config
  colladaGeometry :: "'n ColladaGeometry"
  colladaAnimation :: "'n ColladaAnimation"
  colladaLighting :: lights_object
  hierarchy :: jsval

text \<open>
  The constructor (lines 48-100) resolves the configuration and builds the producers;
  the light extractor is the one built here from the document, the others are given.
\<close>

definition ColladaConvert ::
  "node \<Rightarrow> options \<Rightarrow> 'n ColladaGeometry \<Rightarrow> 'n ColladaAnimation \<Rightarrow> jsval \<Rightarrow> js_error + 'n ColladaConvert" where
  "ColladaConvert root_node opts geometry animation hier =
     (case ColladaLighting root_node of
        Inl e \<Rightarrow> Inl e
      | Inr ls \<Rightarrow>
          Inr \<lparr> config = constructor_config opts, colladaGeometry = geometry,
                colladaAnimation = animation, colladaLighting = ls, hierarchy = hier \<rparr>)"

section \<open>Writing data (lines 106-181)\<close>

text \<open>The loops of \<open>writeFloatArray\<close> and \<open>writeUIntArray\<close>, from index \<open>i\<close> on.\<close>

fun writeFloatArray_from ::
  "('n \<Rightarrow> 32 word) \<Rightarrow> buffer \<Rightarrow> nat \<Rightarrow> nat \<Rightarrow> 'n list \<Rightarrow> js_error + buffer" where
  "writeFloatArray_from float_bits buf start i [] = Inr buf"
| "writeFloatArray_from float_bits buf start i (x # xs) =
     (case writeFloatBE float_bits buf x (start + i * 4) of
        Inl e \<Rightarrow> Inl e
      | Inr buf' \<Rightarrow> writeFloatArray_from float_bits buf' start (Suc i) xs)"

definition writeFloatArray ::
  "('n \<Rightarrow> 32 word) \<Rightarrow> buffer \<Rightarrow> nat \<Rightarrow> 'n list \<Rightarrow> js_error + buffer \<times> nat" where
  "writeFloatArray float_bits buf start array =
     (case writeFloatArray_from float_bits buf start 0 array of
        Inl e \<Rightarrow> Inl e
      | Inr buf' \<Rightarrow> Inr (buf', length array * 4))"

fun writeUIntArray_from :: "buffer \<Rightarrow> nat \<Rightarrow> nat \<Rightarrow> int list \<Rightarrow> js_error + buffer" where
  "writeUIntArray_from buf start i [] = Inr buf"
| "writeUIntArray_from buf start i (x # xs) =
     (case writeUInt16BE buf x (start + i * 2) of
        Inl e \<Rightarrow> Inl e
      | Inr buf' \<Rightarrow> writeUIntArray_from buf' start (Suc i) xs)"

definition writeUIntArray :: "buffer \<Rightarrow> nat \<Rightarrow> int list \<Rightarrow> js_error + buffer \<times> nat" where
  "writeUIntArray buf start array =
     (case writeUIntArray_from buf start 0 array of
        Inl e \<Rightarrow> Inl e
      | Inr buf' \<Rightarrow> Inr (buf', length array * 2))"

text \<open>The loop of lines 153-156 over the geometry segments.\<close>

fun write_geometry ::
  "('n \<Rightarrow> 32 word) \<Rightarrow> buffer \<Rightarrow> nat \<Rightarrow> 'n segment list \<Rightarrow> js_error + buffer \<times> nat" where
  "write_geometry float_bits buf currentOffset [] = Inr (buf, currentOffset)"
| "write_geometry float_bits buf currentOffset (seg # segs) =
     (case writeUIntArray buf currentOffset (indices seg) of
        Inl e \<Rightarrow> Inl e
      | Inr (buf1, n1) \<Rightarrow>
          (case writeFloatArray float_bits buf1 (currentOffset + n1) (vertices seg) of
             Inl e \<Rightarrow> Inl e
           | Inr (buf2, n2) \<Rightarrow> write_geometry float_bits buf2 (currentOffset + n1 + n2) segs))"

text \<open>The loop of lines 159-161 over the collected animation sequences.\<close>

fun write_animations ::
  "('n \<Rightarrow> 32 word) \<Rightarrow> buffer \<Rightarrow> nat \<Rightarrow> 'n list list \<Rightarrow> js_error + buffer \<times> nat" where
  "write_animations float_bits buf currentOffset [] = Inr (buf, currentOffset)"
| "write_animations float_bits buf currentOffset (a # as) =
     (case writeFloatArray float_bits buf currentOffset a of
        Inl e \<Rightarrow> Inl e
      | Inr (buf1, n1) \<Rightarrow> write_animations float_bits buf1 (currentOffset + n1) as)"

text \<open>
  Lines 109-130: the header object, its keys in creation order. \<open>lights\<close> is always
  assigned, to \<open>undefined\<close> when there is no light.
\<close>

definition jsonData :: "'n ColladaConvert \<Rightarrow> 'n ColladaGeometry \<Rightarrow> (jsstring \<times> jsval) list" where
  "jsonData this g =
     (let j0 = [];
          j1 = (if includeGeometry (config this)
                then AList.update (js ''geometry'') (geometry_getJSON g) j0 else j0);
          j2 = AList.update (js ''lights'') (lights_getJSON (colladaLighting this)) j1;
          j3 = (if includeHierarchy (config this)
                then AList.update (js ''hierarchy'') (hierarchy this) j2 else j2);
          j4 = (if includeAnimation (config this) \<and> hasAnimation (colladaAnimation this)
                then AList.update (js ''animation'') (animation_getJSON (colladaAnimation this)) j3
                else j3)
      in j4)"

definition animationData :: "'n ColladaConvert \<Rightarrow> 'n list list" where
  "animationData this =
     (if includeAnimation (config this) \<and> hasAnimation (colladaAnimation this)
      then map (getAnimationData (colladaAnimation this)) (animationOrder (colladaAnimation this))
      else [])"

text \<open>
  What a run of \<open>writeData\<close> leaves behind: the error it threw, if any; the chunks
  handed to \<open>writeStream.write\<close>; whether the stream was ended; the size given to
  \<open>new Buffer\<close>; the value of \<open>currentOffset\<close> when the run stopped writing; and the uses
  it made of the geometry producer, in order.
\<close>

datatype geometry_use = PrepareForExport | GetJSON | ByteSize | GeometryData

record outcome =
  thrown :: "js_error option"
  written :: "buffer list"
  ended :: bool
  allocated :: nat
  finalOffset :: nat
  geometry_uses :: "geometry_use list"

text \<open>Lines 150-162: the binary payload, written from \<open>currentOffset\<close> on.\<close>

definition write_payload ::
  "('n \<Rightarrow> 32 word) \<Rightarrow> buffer \<Rightarrow> nat \<Rightarrow> 'n segment list \<Rightarrow> 'n list list \<Rightarrow> js_error + buffer \<times> nat" where
  "write_payload float_bits buf currentOffset segs anims =
     (case write_geometry float_bits buf currentOffset segs of
        Inl e \<Rightarrow> Inl e
      | Inr (buf1, off1) \<Rightarrow> write_animations float_bits buf1 off1 anims)"

text \<open>
  Lines 141-148: the buffer is allocated, then the length prefix and the header are
  written into it.
\<close>

definition write_header :: "nat \<Rightarrow> jsstring \<Rightarrow> js_error + buffer" where
  "write_header bufferSize jsonString =
     (let jsonLength = byteLength jsonString;
          buffer = new_Buffer bufferSize
      in case writeUInt32BE buffer (int jsonLength) 0 of
           Inl e \<Rightarrow> Inl e
         | Inr buf1 \<Rightarrow>
             (case buffer_write buf1 jsonString 4 jsonLength of
                Inl e \<Rightarrow> Inl e
              | Inr (buf2, n) \<Rightarrow> Inr buf2))"

text \<open>
  \<open>writeData\<close>. What \<open>prepareForExport\<close> does to the geometry producer is code of
  \<open>includes/collada-geometry.js\<close>: it is the parameter \<open>prepareForExport\<close>. The stream
  is created first and receives the buffer only after every write into the buffer
  has returned; a run that throws hands nothing to it.
\<close>

definition writeData ::
  "(rat \<Rightarrow> jsstring) \<Rightarrow> ('n \<Rightarrow> 32 word) \<Rightarrow> ('n ColladaGeometry \<Rightarrow> 'n ColladaGeometry)
     \<Rightarrow> 'n ColladaConvert \<Rightarrow> outcome" where
  "writeData fmt float_bits prepareForExport this =
     (let cfg = config this;
          g = (if includeGeometry cfg then prepareForExport (colladaGeometry this)
               else colladaGeometry this);
          uses1 = (if includeGeometry cfg then [PrepareForExport, GetJSON] else []);
          jsonString = JSON_stringify fmt (JObject (jsonData this g));
          jsonLength = byteLength jsonString;
          bufferSize = 4 + jsonLength
            + (if includeBinary cfg
               then geometry_byteSize g + animation_byteSize (colladaAnimation this) else 0);
          uses2 = uses1 @ (if includeBinary cfg then [ByteSize] else []);
          failed = (\<lambda>e uses. \<lparr> thrown = Some e, written = [], ended = False,
                       allocated = bufferSize, finalOffset = 0, geometry_uses = uses \<rparr>);
          done = (\<lambda>buffer currentOffset uses. \<lparr> thrown = None, written = [buffer], ended = True,
                       allocated = bufferSize, finalOffset = currentOffset, geometry_uses = uses \<rparr>)
      in case write_header bufferSize jsonString of
           Inl e \<Rightarrow> failed e uses2
         | Inr buffer \<Rightarrow>
             if includeBinary cfg then
               (case write_payload float_bits buffer (4 + jsonLength) (geometryData g) (animationData this) of
                  Inl e \<Rightarrow> failed e (uses2 @ [GeometryData])
                | Inr (buffer', currentOffset) \<Rightarrow> done buffer' currentOffset (uses2 @ [GeometryData]))
             else done buffer (4 + jsonLength) uses2)"

text \<open>
  The bytes the format description asks for: per geometry segment the indices as
  big-endian 16-bit integers and then the vertices as big-endian 32-bit floats, then
  the animation sequences as big-endian 32-bit floats.
\<close>

definition index_bytes :: "int list \<Rightarrow> byte list" where
  "index_bytes xs = concat (map (\<lambda>v. [of_int (v div 256), of_int v]) xs)"

definition float_bytes :: "('n \<Rightarrow> 32 word) \<Rightarrow> 'n list \<Rightarrow> byte list" where
  "float_bytes float_bits xs = concat (map (\<lambda>x. be32 (float_bits x)) xs)"

definition segment_bytes :: "('n \<Rightarrow> 32 word) \<Rightarrow> 'n segment \<Rightarrow> byte list" where
  "segment_bytes float_bits seg = index_bytes (indices seg) @ float_bytes float_bits (vertices seg)"

definition geometry_bytes :: "('n \<Rightarrow> 32 word) \<Rightarrow> 'n segment list \<Rightarrow> byte list" where
  "geometry_bytes float_bits segs = concat (map (segment_bytes float_bits) segs)"

definition animation_bytes :: "('n \<Rightarrow> 32 word) \<Rightarrow> 'n list list \<Rightarrow> byte list" where
  "animation_bytes float_bits anims = concat (map (float_bytes float_bits) anims)"

text \<open>
  Names for what a run works with: the geometry producer after the conditional call
  of \<open>prepareForExport\<close>, the header text, the payload the format asks for, and the
  payload size the two producers declare.
\<close>

definition prepared ::
  "('n ColladaGeometry \<Rightarrow> 'n ColladaGeometry) \<Rightarrow> 'n ColladaConvert \<Rightarrow> 'n ColladaGeometry" where
  "prepared prepareForExport this =
     (if includeGeometry (config this) then prepareForExport (colladaGeometry this)
      else colladaGeometry this)"

definition header_text ::
  "(rat \<Rightarrow> jsstring) \<Rightarrow> ('n ColladaGeometry \<Rightarrow> 'n ColladaGeometry) \<Rightarrow> 'n ColladaConvert \<Rightarrow> jsstring" where
  "header_text fmt prepareForExport this =
     JSON_stringify fmt (JObject (jsonData this (prepared prepareForExport this)))"

definition payload_bytes ::
  "('n \<Rightarrow> 32 word) \<Rightarrow> ('n ColladaGeometry \<Rightarrow> 'n ColladaGeometry) \<Rightarrow> 'n ColladaConvert \<Rightarrow> byte list" where
  "payload_bytes float_bits prepareForExport this =
     geometry_bytes float_bits (geometryData (prepared prepareForExport this))
     @ animation_bytes float_bits (animationData this)"

definition declared_size ::
  "('n ColladaGeometry \<Rightarrow> 'n ColladaGeometry) \<Rightarrow> 'n ColladaConvert \<Rightarrow> nat" where
  "declared_size prepareForExport this =
     geometry_byteSize (prepared prepareForExport this)
     + animation_byteSize (colladaAnimation this)"

text \<open>
  The size given to \<open>new Buffer\<close> (lines 136-139), and the uses of the geometry
  producer up to that point.
\<close>

definition buffer_size ::
  "(rat \<Rightarrow> jsstring) \<Rightarrow> ('n ColladaGeometry \<Rightarrow> 'n ColladaGeometry) \<Rightarrow> 'n ColladaConvert \<Rightarrow> nat" where
  "buffer_size fmt prepareForExport this =
     4 + byteLength (header_text fmt prepareForExport this)
     + (if includeBinary (config this) then declared_size prepareForExport this else 0)"

definition uses_before_payload :: "config \<Rightarrow> geometry_use list" where
  "uses_before_payload cfg =
     (if includeGeometry cfg then [PrepareForExport, GetJSON] else [])
     @ (if includeBinary cfg then [ByteSize] else [])"

text \<open>An index that \<open>writeUInt16BE\<close> accepts.\<close>

definition valid_index :: "int \<Rightarrow> bool" where
  "valid_index v = (0 \<le> v \<and> v \<le> 65535)"

definition valid_indices :: "'n segment list \<Rightarrow> bool" where
  "valid_indices segs = list_all (\<lambda>seg. list_all valid_index (indices seg)) segs"

text \<open>The bytes of the output file: the chunks the stream received, in order.\<close>

definition output_file :: "outcome \<Rightarrow> buffer" where
  "output_file out = concat (written out)"



text \<open>Whether lines 123-130 collect the animation sequences.\<close>

definition collects_animation :: "'n ColladaConvert \<Rightarrow> bool" where
  "collects_animation this =
     (includeAnimation (config this) \<and> hasAnimation (colladaAnimation this))"

section \<open>Example runs\<close>

text \<open>
  Concrete inputs on which the model is run below. The numbers of the examples are
  32-bit patterns already, and the header of none of them holds a number that is not
  an integer, so that the formatter of such numbers is never consulted.
\<close>

definition no_fmt :: "rat \<Rightarrow> jsstring" where
  "no_fmt q = []"

text \<open>
  A formatter for the examples that consult one: the integer part followed by
  \<open>.5\<close>, which is how the odd multiples of one half print.
\<close>

definition half_fmt :: "rat \<Rightarrow> jsstring" where
  "half_fmt q = (if q < 0 then js ''-'' else []) @ decimal (nat \<lfloor>\<bar>q\<bar>\<rfloor>) @ js ''.5''"

definition empty_geometry :: "32 word ColladaGeometry" where
  "empty_geometry = \<lparr> geometryData = [], geometry_byteSize = 0, geometry_getJSON = JUndefined \<rparr>"

definition no_animation :: "32 word ColladaAnimation" where
  "no_animation =
     \<lparr> hasAnimation = False, animationOrder = [], getAnimationData = (\<lambda>name. []),
       animation_byteSize = 0, animation_getJSON = JUndefined \<rparr>"

text \<open>A document without geometry, lights, hierarchy and animation, converted with no flag.\<close>

definition empty_scene :: "32 word ColladaConvert" where
  "empty_scene =
     \<lparr> config = constructor_config (options_of []), colladaGeometry = empty_geometry,
       colladaAnimation = no_animation, colladaLighting = empty_lights, hierarchy = JUndefined \<rparr>"

text \<open>
  A document with one mesh of three indices and two vertex values and with two
  animations, \<open>b\<close> of two values listed before \<open>a\<close> of one, converted with no flag.
\<close>

definition triangle_geometry :: "32 word ColladaGeometry" where
  "triangle_geometry =
     \<lparr> geometryData = [\<lparr> indices = [0, 1, 65535], vertices = [0x3F800000, 0x40000000] \<rparr>],
       geometry_byteSize = 14, geometry_getJSON = JUndefined \<rparr>"

definition two_animations :: "32 word ColladaAnimation" where
  "two_animations =
     \<lparr> hasAnimation = True, animationOrder = [js ''b'', js ''a''],
       getAnimationData = (\<lambda>name. if name = js ''a'' then [1] else if name = js ''b'' then [2, 3] else []),
       animation_byteSize = 12, animation_getJSON = JUndefined \<rparr>"

definition full_scene :: "32 word ColladaConvert" where
  "full_scene =
     \<lparr> config = constructor_config (options_of []), colladaGeometry = triangle_geometry,
       colladaAnimation = two_animations, colladaLighting = empty_lights, hierarchy = JUndefined \<rparr>"

text \<open>
  The mesh and the animations of the last example converted with the flag
  \<open>-sub-anim\<close>, and the same with an index of 65536 in the mesh.
\<close>

definition sub_anim_scene :: "32 word ColladaConvert" where
  "sub_anim_scene =
     \<lparr> config = constructor_config (cli_options (js ''.'') [SUB_ANIM]),
       colladaGeometry = triangle_geometry, colladaAnimation = two_animations,
       colladaLighting = empty_lights, hierarchy = JUndefined \<rparr>"

definition overflow_geometry :: "32 word ColladaGeometry" where
  "overflow_geometry =
     \<lparr> geometryData = [\<lparr> indices = [0, 65536, 2], vertices = [0x3F800000, 0x40000000] \<rparr>],
       geometry_byteSize = 14, geometry_getJSON = JUndefined \<rparr>"

definition overflow_scene :: "32 word ColladaConvert" where
  "overflow_scene =
     \<lparr> config = constructor_config (options_of []), colladaGeometry = overflow_geometry,
       colladaAnimation = two_animations, colladaLighting = empty_lights, hierarchy = JUndefined \<rparr>"

text \<open>
  Light libraries: a spot light with colour \<open>255 0 0\<close> and falloff angle \<open>45.0\<close>, a point
  light, and an ambient light, which has neither technique.
\<close>

definition spot_light :: "jsstring \<Rightarrow> node" where
  "spot_light i =
     Elem (Some [(js ''id'', i)])
       [(js ''technique_common'',
         [Elem None
            [(js ''spot'',
              [Elem None [(js ''color'', [Text (js ''255 0 0'')]),
                          (js ''falloff_angle'', [Text (js ''45.0'')])]])]])]"

definition point_light :: "jsstring \<Rightarrow> node" where
  "point_light i =
     Elem (Some [(js ''id'', i)])
       [(js ''technique_common'',
         [Elem None [(js ''point'', [Elem None [(js ''color'', [Text (js ''1 1 1'')])]])]])]"

definition ambient_light :: "jsstring \<Rightarrow> node" where
  "ambient_light i =
     Elem (Some [(js ''id'', i)])
       [(js ''technique_common'',
         [Elem None [(js ''ambient'', [Elem None [(js ''color'', [Text (js ''1 1 1'')])]])]])]"

definition document :: "node list \<Rightarrow> node" where
  "document lights = Elem None [(js ''library_lights'', [Elem None [(js ''light'', lights)]])]"

text \<open>A conversion with no flag of a document that has lights and nothing else.\<close>

definition lit_scene :: "lights_object \<Rightarrow> 32 word ColladaConvert" where
  "lit_scene ls =
     \<lparr> config = constructor_config (options_of []), colladaGeometry = empty_geometry,
       colladaAnimation = no_animation, colladaLighting = ls, hierarchy = JUndefined \<rparr>"

text \<open>The record of the spot light above.\<close>

definition spot_record :: "jsstring \<Rightarrow> light" where
  "spot_record i =
     \<lparr> light_id = Some i, color = [Fin 255, Fin 0, Fin 0], light_type = Spot,
       coneAngle = Some (Fin 45) \<rparr>"

text \<open>The conversion with no flag of a document whose one light is that spot light, named \<open>Lamp\<close>.\<close>

definition lamp_scene :: "32 word ColladaConvert" where
  "lamp_scene = lit_scene \<lparr> own = [(js ''Lamp'', spot_record (js ''Lamp''))], prototype = None \<rparr>"

text \<open>A file system with the one file \<open>scene.dae\<close>, in the current directory.\<close>

definition scene_file :: "jsstring \<Rightarrow> jsstring option" where
  "scene_file p = (if p = js ''scene.dae'' then Some (js ''<COLLADA/>'') else None)"

definition dirname_dot :: "jsstring \<Rightarrow> jsstring" where
  "dirname_dot p = js ''.''"

section \<open>Facts about the order of keys\<close>

lemma set_entries [simp]: "set (entries ps) = set ps"
  by (auto simp: entries_def)

section \<open>Facts about buffers and the write loops\<close>

lemma length_store: "offset + length bs \<le> length buf \<Longrightarrow> length (store buf offset bs) = length buf"
  by (simp add: store_def)

lemma store_Nil: "store buf offset [] = buf"
  by (simp add: store_def)

lemma store_store:
  "offset + length xs + length ys \<le> length buf \<Longrightarrow>
   store (store buf offset xs) (offset + length xs) ys = store buf offset (xs @ ys)"
  by (simp add: store_def add.commute add.left_commute)

lemma length_be32: "length (be32 w) = 4"
  by (simp add: be32_def)

lemma length_float_bytes: "length (float_bytes float_bits xs) = 4 * length xs"
  by (induction xs) (simp_all add: float_bytes_def length_be32)

lemma length_index_bytes: "length (index_bytes xs) = 2 * length xs"
  by (induction xs) (simp_all add: index_bytes_def)

lemma split256:
  fixes y :: nat
  shows "y div 256 * 256 + y mod 256 = y"
  by simp

lemma be32_arith:
  fixes x :: nat
  assumes "x < 2 ^ 32"
  shows "((x div 2 ^ 24 mod 256 * 256 + x div 2 ^ 16 mod 256) * 256 + x div 2 ^ 8 mod 256) * 256
           + x mod 256 = x"
proof -
  have a: "x div 2 ^ 24 = x div 2 ^ 16 div 256" "x div 2 ^ 16 = x div 2 ^ 8 div 256" "x div 2 ^ 8 = x div 256"
    by (simp_all add: div_mult2_eq [symmetric])
  have "x div 2 ^ 24 < 256" using assms by (simp add: less_mult_imp_div_less)
  then have b: "x div 2 ^ 24 mod 256 = x div 2 ^ 24" by simp
  show ?thesis unfolding b unfolding a by (simp only: split256)
qed

lemma unat_byte_of:
  fixes w :: "32 word"
  shows "unat (ucast (drop_bit k w) :: 8 word) = unat w div 2 ^ k mod 256"
  apply (simp only: unsigned_ucast_eq unat_drop_bit_eq)
  apply (simp only: take_bit_eq_mod drop_bit_eq_div)
  apply simp
  done

lemma unat_low_byte:
  fixes w :: "32 word"
  shows "unat (ucast w :: 8 word) = unat w mod 256"
  by (simp only: unsigned_ucast_eq take_bit_eq_mod) simp

lemma readUInt32BE_be32: "readUInt32BE (be32 w) = unat w"
proof -
  have "unat w < 2 ^ 32"
    using unsigned_less [of w, where 'a = nat] by simp
  then have e: "((unat w div 2 ^ 24 mod 256 * 256 + unat w div 2 ^ 16 mod 256) * 256
               + unat w div 2 ^ 8 mod 256) * 256 + unat w mod 256 = unat w"
    by (rule be32_arith)
  have n: "be32 w ! 0 = ucast (drop_bit 24 w)" "be32 w ! 1 = ucast (drop_bit 16 w)"
    "be32 w ! 2 = ucast (drop_bit 8 w)" "be32 w ! 3 = ucast w"
    by (simp_all add: be32_def)
  show ?thesis
    unfolding readUInt32BE_def n
    unfolding unat_byte_of
    unfolding unat_low_byte
    by (rule e)
qed

lemma unat_of_nat32: "n < 2 ^ 32 \<Longrightarrow> unat (of_nat n :: 32 word) = n"
  by (simp add: unat_of_nat)


lemma length_utf8_code_point: "length (utf8_code_point c) \<le> 4"
  by (simp add: utf8_code_point_def)

lemma utf8_fit_all: "length (utf8 s) \<le> n \<Longrightarrow> utf8_fit n s = utf8 s"
  by (induction n s rule: utf8_fit.induct) auto

lemma writeFloatBE_Inr:
  "writeFloatBE float_bits buf v offset = Inr b \<longleftrightarrow>
     offset + 4 \<le> length buf \<and> b = store buf offset (be32 (float_bits v))"
  by (auto simp: writeFloatBE_def)

lemma writeUInt16BE_Inr:
  "writeUInt16BE buf v offset = Inr b \<longleftrightarrow>
     valid_index v \<and> offset + 2 \<le> length buf \<and> b = store buf offset [of_int (v div 256), of_int v]"
  by (auto simp: writeUInt16BE_def valid_index_def)

lemma float_bytes_Cons: "float_bytes float_bits (x # xs) = be32 (float_bits x) @ float_bytes float_bits xs"
  by (simp add: float_bytes_def)

lemma index_bytes_Cons: "index_bytes (x # xs) = [of_int (x div 256), of_int x] @ index_bytes xs"
  by (simp add: index_bytes_def)

lemma writeFloatArray_from_Inr:
  "writeFloatArray_from float_bits buf start i xs = Inr b \<longleftrightarrow>
     (xs = [] \<or> start + (i + length xs) * 4 \<le> length buf)
     \<and> b = store buf (start + i * 4) (float_bytes float_bits xs)"
proof (induction xs arbitrary: buf i)
  case Nil
  show ?case by (auto simp: float_bytes_def store_Nil)
next
  case (Cons x xs)
  show ?case
  proof (cases "start + i * 4 + 4 \<le> length buf")
    case False
    then show ?thesis by (auto simp: writeFloatBE_def)
  next
    case True
    let ?b1 = "store buf (start + i * 4) (be32 (float_bits x))"
    have w: "writeFloatBE float_bits buf x (start + i * 4) = Inr ?b1"
      using True by (simp add: writeFloatBE_def)
    have l: "length ?b1 = length buf"
      using True by (simp add: length_store length_be32)
    show ?thesis
    proof (cases "xs = []")
      case True
      then show ?thesis using w \<open>start + i * 4 + 4 \<le> length buf\<close>
        by (auto simp: float_bytes_def store_Nil)
    next
      case False
      have s: "start + (Suc i + length xs) * 4 \<le> length buf \<Longrightarrow>
        store ?b1 (start + Suc i * 4) (float_bytes float_bits xs)
          = store buf (start + i * 4) (float_bytes float_bits (x # xs))"
        using store_store [of "start + i * 4" "be32 (float_bits x)" "float_bytes float_bits xs" buf]
        by (simp add: length_be32 length_float_bytes float_bytes_Cons add.commute add.left_commute)
      show ?thesis
        using False w l s Cons.IH [where buf = ?b1 and i = "Suc i"] by auto
    qed
  qed
qed

lemma writeUIntArray_from_Inr:
  "writeUIntArray_from buf start i xs = Inr b \<longleftrightarrow>
     list_all valid_index xs
     \<and> (xs = [] \<or> start + (i + length xs) * 2 \<le> length buf)
     \<and> b = store buf (start + i * 2) (index_bytes xs)"
proof (induction xs arbitrary: buf i)
  case Nil
  show ?case by (auto simp: index_bytes_def store_Nil)
next
  case (Cons x xs)
  show ?case
  proof (cases "valid_index x \<and> start + i * 2 + 2 \<le> length buf")
    case False
    then show ?thesis by (auto simp: writeUInt16BE_def valid_index_def)
  next
    case True
    let ?b1 = "store buf (start + i * 2) [of_int (x div 256), of_int x]"
    have w: "writeUInt16BE buf x (start + i * 2) = Inr ?b1"
      using True by (simp add: writeUInt16BE_Inr)
    have l: "length ?b1 = length buf"
      using True by (simp add: length_store)
    show ?thesis
    proof (cases "xs = []")
      case True
      then show ?thesis using w \<open>valid_index x \<and> start + i * 2 + 2 \<le> length buf\<close>
        by (auto simp: index_bytes_def store_Nil)
    next
      case False
      have s: "start + (Suc i + length xs) * 2 \<le> length buf \<Longrightarrow>
        store ?b1 (start + Suc i * 2) (index_bytes xs)
          = store buf (start + i * 2) (index_bytes (x # xs))"
        using store_store [of "start + i * 2" "[of_int (x div 256), of_int x]" "index_bytes xs" buf]
        by (simp add: length_index_bytes index_bytes_Cons add.commute add.left_commute)
      show ?thesis
        using False True w l s Cons.IH [where buf = ?b1 and i = "Suc i"] by auto
    qed
  qed
qed

lemma writeUIntArray_from_value_error:
  "\<not> list_all valid_index xs \<Longrightarrow> start + (i + length xs) * 2 \<le> length buf \<Longrightarrow>
   writeUIntArray_from buf start i xs = Inl ValueOutOfRange"
proof (induction xs arbitrary: buf i)
  case Nil
  then show ?case by simp
next
  case (Cons x xs)
  show ?case
  proof (cases "valid_index x")
    case False
    then show ?thesis by (auto simp: writeUInt16BE_def valid_index_def)
  next
    case True
    let ?b1 = "store buf (start + i * 2) [of_int (x div 256), of_int x]"
    have f: "start + i * 2 + 2 \<le> length buf" using Cons.prems(2) by simp
    have w: "writeUInt16BE buf x (start + i * 2) = Inr ?b1"
      using True f by (simp add: writeUInt16BE_Inr)
    have l: "length ?b1 = length buf"
      using f by (simp add: length_store)
    have "writeUIntArray_from ?b1 start (Suc i) xs = Inl ValueOutOfRange"
      using Cons.IH [where buf = ?b1 and i = "Suc i"] Cons.prems True l by simp
    then show ?thesis using w by simp
  qed
qed


lemma float_bytes_Nil: "float_bytes float_bits [] = []"
  by (simp add: float_bytes_def)

lemma index_bytes_Nil: "index_bytes [] = []"
  by (simp add: index_bytes_def)

lemma writeFloatArray_Inr:
  assumes "start \<le> length buf"
  shows "writeFloatArray float_bits buf start xs = Inr (b, n) \<longleftrightarrow>
     start + length (float_bytes float_bits xs) \<le> length buf \<and> n = length (float_bytes float_bits xs)
     \<and> b = store buf start (float_bytes float_bits xs)"
proof -
  have c: "(xs = [] \<or> start + (0 + length xs) * 4 \<le> length buf)
      \<longleftrightarrow> start + length (float_bytes float_bits xs) \<le> length buf"
    using assms by (auto simp: length_float_bytes)
  show ?thesis
  proof (cases "writeFloatArray_from float_bits buf start 0 xs")
    case (Inl e)
    then have "\<not> start + length (float_bytes float_bits xs) \<le> length buf"
      using writeFloatArray_from_Inr [of float_bits buf start 0 xs "store buf (start + 0 * 4) (float_bytes float_bits xs)"]
      unfolding c by simp
    then show ?thesis using Inl by (simp add: writeFloatArray_def)
  next
    case (Inr b1)
    then have f: "start + length (float_bytes float_bits xs) \<le> length buf"
      "b1 = store buf start (float_bytes float_bits xs)"
      using writeFloatArray_from_Inr [of float_bits buf start 0 xs b1] unfolding c by simp_all
    then show ?thesis using Inr
      by (auto simp: writeFloatArray_def length_float_bytes)
  qed
qed

lemma writeUIntArray_Inr:
  assumes "start \<le> length buf"
  shows "writeUIntArray buf start xs = Inr (b, n) \<longleftrightarrow>
     list_all valid_index xs
     \<and> start + length (index_bytes xs) \<le> length buf \<and> n = length (index_bytes xs)
     \<and> b = store buf start (index_bytes xs)"
proof -
  have c: "(xs = [] \<or> start + (0 + length xs) * 2 \<le> length buf)
      \<longleftrightarrow> start + length (index_bytes xs) \<le> length buf"
    using assms by (auto simp: length_index_bytes)
  show ?thesis
  proof (cases "writeUIntArray_from buf start 0 xs")
    case (Inl e)
    then have "\<not> (list_all valid_index xs \<and> start + length (index_bytes xs) \<le> length buf)"
      using writeUIntArray_from_Inr [of buf start 0 xs "store buf (start + 0 * 2) (index_bytes xs)"]
      unfolding c by simp
    then show ?thesis using Inl by (auto simp: writeUIntArray_def)
  next
    case (Inr b1)
    then have f: "list_all valid_index xs" "start + length (index_bytes xs) \<le> length buf"
      "b1 = store buf start (index_bytes xs)"
      using writeUIntArray_from_Inr [of buf start 0 xs b1] unfolding c by simp_all
    then show ?thesis using Inr
      by (auto simp: writeUIntArray_def length_index_bytes)
  qed
qed

lemma writeUIntArray_value_error:
  "\<not> list_all valid_index xs \<Longrightarrow> start + length (index_bytes xs) \<le> length buf \<Longrightarrow>
   writeUIntArray buf start xs = Inl ValueOutOfRange"
  using writeUIntArray_from_value_error [of xs start 0 buf]
  by (simp add: writeUIntArray_def length_index_bytes mult.commute)

lemma geometry_bytes_Cons:
  "geometry_bytes float_bits (seg # segs)
     = index_bytes (indices seg) @ float_bytes float_bits (vertices seg) @ geometry_bytes float_bits segs"
  by (simp add: geometry_bytes_def segment_bytes_def)

lemma animation_bytes_Cons:
  "animation_bytes float_bits (a # as) = float_bytes float_bits a @ animation_bytes float_bits as"
  by (simp add: animation_bytes_def)

lemma write_animations_Inr:
  assumes "off \<le> length buf"
  shows "write_animations float_bits buf off anims = Inr (b, off') \<longleftrightarrow>
     off + length (animation_bytes float_bits anims) \<le> length buf
     \<and> off' = off + length (animation_bytes float_bits anims)
     \<and> b = store buf off (animation_bytes float_bits anims)"
  using assms
proof (induction anims arbitrary: buf off)
  case Nil
  show ?case using Nil by (auto simp: animation_bytes_def store_Nil)
next
  case (Cons a as)
  let ?A = "float_bytes float_bits a"
  let ?R = "animation_bytes float_bits as"
  have ab: "animation_bytes float_bits (a # as) = ?A @ ?R" by (rule animation_bytes_Cons)
  show ?case
  proof (cases "off + length ?A \<le> length buf")
    case False
    then have "\<And>r. writeFloatArray float_bits buf off a \<noteq> Inr r"
      using writeFloatArray_Inr [OF Cons.prems, of float_bits a] by (metis surj_pair)
    then obtain e where "writeFloatArray float_bits buf off a = Inl e"
      by (cases "writeFloatArray float_bits buf off a") auto
    then show ?thesis using False by (simp add: ab)
  next
    case True
    let ?b1 = "store buf off ?A"
    have w: "writeFloatArray float_bits buf off a = Inr (?b1, length ?A)"
      using writeFloatArray_Inr [OF Cons.prems, of float_bits a ?b1 "length ?A"] True by simp
    have l: "length ?b1 = length buf" using True by (simp add: length_store)
    have p: "off + length ?A \<le> length ?b1" using True l by simp
    have s: "off + length ?A + length ?R \<le> length buf \<Longrightarrow>
      store ?b1 (off + length ?A) ?R = store buf off (?A @ ?R)"
      by (rule store_store)
    have "write_animations float_bits buf off (a # as) = Inr (b, off')
       \<longleftrightarrow> write_animations float_bits ?b1 (off + length ?A) as = Inr (b, off')"
      using w by simp
    also have "\<dots> \<longleftrightarrow> off + length ?A + length ?R \<le> length ?b1
         \<and> off' = off + length ?A + length ?R \<and> b = store ?b1 (off + length ?A) ?R"
      by (rule Cons.IH [OF p])
    also have "\<dots> \<longleftrightarrow> off + length (?A @ ?R) \<le> length buf
         \<and> off' = off + length (?A @ ?R) \<and> b = store buf off (?A @ ?R)"
      using s by (auto simp only: l length_append add.assoc)
    finally show ?thesis by (simp only: ab)
  qed
qed

lemma valid_indices_Cons:
  "valid_indices (seg # segs) \<longleftrightarrow> list_all valid_index (indices seg) \<and> valid_indices segs"
  by (simp add: valid_indices_def)

lemma writeUIntArray_Inl:
  assumes "off \<le> length buf"
    and "\<not> (list_all valid_index xs \<and> off + length (index_bytes xs) \<le> length buf)"
  shows "\<exists>e. writeUIntArray buf off xs = Inl e"
proof -
  have "\<And>r. writeUIntArray buf off xs \<noteq> Inr r"
    using writeUIntArray_Inr [OF assms(1), of xs] assms(2) by (metis surj_pair)
  then show ?thesis by (cases "writeUIntArray buf off xs") auto
qed

lemma writeFloatArray_Inl:
  assumes "off \<le> length buf"
    and "\<not> off + length (float_bytes float_bits xs) \<le> length buf"
  shows "\<exists>e. writeFloatArray float_bits buf off xs = Inl e"
proof -
  have "\<And>r. writeFloatArray float_bits buf off xs \<noteq> Inr r"
    using writeFloatArray_Inr [OF assms(1), of float_bits xs] assms(2) by (metis surj_pair)
  then show ?thesis by (cases "writeFloatArray float_bits buf off xs") auto
qed

lemma write_geometry_Inr:
  assumes "off \<le> length buf"
  shows "write_geometry float_bits buf off segs = Inr (b, off') \<longleftrightarrow>
     valid_indices segs
     \<and> off + length (geometry_bytes float_bits segs) \<le> length buf
     \<and> off' = off + length (geometry_bytes float_bits segs)
     \<and> b = store buf off (geometry_bytes float_bits segs)"
  using assms
proof (induction segs arbitrary: buf off)
  case Nil
  show ?case using Nil by (auto simp: geometry_bytes_def valid_indices_def store_Nil)
next
  case (Cons seg segs)
  let ?I = "index_bytes (indices seg)"
  let ?V = "float_bytes float_bits (vertices seg)"
  let ?R = "geometry_bytes float_bits segs"
  have gb: "geometry_bytes float_bits (seg # segs) = ?I @ ?V @ ?R" by (rule geometry_bytes_Cons)
  show ?case
  proof (cases "list_all valid_index (indices seg) \<and> off + length ?I \<le> length buf")
    case False
    then obtain e where "writeUIntArray buf off (indices seg) = Inl e"
      using writeUIntArray_Inl [OF Cons.prems] by blast
    then show ?thesis using False by (auto simp: gb valid_indices_Cons)
  next
    case True
    let ?b1 = "store buf off ?I"
    have w1: "writeUIntArray buf off (indices seg) = Inr (?b1, length ?I)"
      using writeUIntArray_Inr [OF Cons.prems, of "indices seg" ?b1 "length ?I"] True by simp
    have l1: "length ?b1 = length buf" using True by (simp add: length_store)
    have p1: "off + length ?I \<le> length ?b1" using True l1 by simp
    show ?thesis
    proof (cases "off + length ?I + length ?V \<le> length buf")
      case False
      then obtain e where "writeFloatArray float_bits ?b1 (off + length ?I) (vertices seg) = Inl e"
        using writeFloatArray_Inl [OF p1, of float_bits "vertices seg"] l1 by auto
      then show ?thesis using False w1 by (auto simp: gb)
    next
      case fits: True
      let ?b2 = "store buf off (?I @ ?V)"
      have s1: "store ?b1 (off + length ?I) ?V = ?b2"
        using fits by (rule store_store)
      have w2: "writeFloatArray float_bits ?b1 (off + length ?I) (vertices seg) = Inr (?b2, length ?V)"
        using writeFloatArray_Inr [OF p1, of float_bits "vertices seg" ?b2 "length ?V"] fits l1 s1 by simp
      have l2: "length ?b2 = length buf" using fits by (simp add: length_store)
      have p2: "off + length ?I + length ?V \<le> length ?b2" using fits l2 by simp
      have s2: "off + length ?I + length ?V + length ?R \<le> length buf \<Longrightarrow>
        store ?b2 (off + length ?I + length ?V) ?R = store buf off (?I @ ?V @ ?R)"
        using store_store [of off "?I @ ?V" ?R buf] by (simp add: add.assoc)
      have "write_geometry float_bits buf off (seg # segs) = Inr (b, off')
         \<longleftrightarrow> write_geometry float_bits ?b2 (off + length ?I + length ?V) segs = Inr (b, off')"
        using w1 w2 by simp
      also have "\<dots> \<longleftrightarrow> valid_indices segs
           \<and> off + length ?I + length ?V + length ?R \<le> length ?b2
           \<and> off' = off + length ?I + length ?V + length ?R
           \<and> b = store ?b2 (off + length ?I + length ?V) ?R"
        by (rule Cons.IH [OF p2])
      also have "\<dots> \<longleftrightarrow> valid_indices (seg # segs)
           \<and> off + length (?I @ ?V @ ?R) \<le> length buf
           \<and> off' = off + length (?I @ ?V @ ?R) \<and> b = store buf off (?I @ ?V @ ?R)"
        using s2 True by (auto simp only: l2 length_append add.assoc valid_indices_Cons)
      finally show ?thesis by (simp only: gb)
    qed
  qed
qed

lemma write_geometry_value_error:
  "\<not> valid_indices segs \<Longrightarrow> off + length (geometry_bytes float_bits segs) \<le> length buf \<Longrightarrow>
   write_geometry float_bits buf off segs = Inl ValueOutOfRange"
proof (induction segs arbitrary: buf off)
  case Nil
  then show ?case by (simp add: valid_indices_def)
next
  case (Cons seg segs)
  let ?I = "index_bytes (indices seg)"
  let ?V = "float_bytes float_bits (vertices seg)"
  let ?R = "geometry_bytes float_bits segs"
  have gb: "geometry_bytes float_bits (seg # segs) = ?I @ ?V @ ?R" by (rule geometry_bytes_Cons)
  have fits: "off + length ?I + length ?V + length ?R \<le> length buf"
    using Cons.prems(2) by (simp add: gb add.assoc)
  have o: "off \<le> length buf" using fits by simp
  show ?case
  proof (cases "list_all valid_index (indices seg)")
    case False
    have "writeUIntArray buf off (indices seg) = Inl ValueOutOfRange"
      using False fits by (intro writeUIntArray_value_error) simp_all
    then show ?thesis by simp
  next
    case True
    let ?b1 = "store buf off ?I"
    let ?b2 = "store buf off (?I @ ?V)"
    have w1: "writeUIntArray buf off (indices seg) = Inr (?b1, length ?I)"
      using writeUIntArray_Inr [OF o, of "indices seg" ?b1 "length ?I"] True fits by simp
    have l1: "length ?b1 = length buf" using fits by (simp add: length_store)
    have p1: "off + length ?I \<le> length ?b1" using fits l1 by simp
    have s1: "store ?b1 (off + length ?I) ?V = ?b2"
      using fits by (intro store_store) simp
    have w2: "writeFloatArray float_bits ?b1 (off + length ?I) (vertices seg) = Inr (?b2, length ?V)"
      using writeFloatArray_Inr [OF p1, of float_bits "vertices seg" ?b2 "length ?V"] fits l1 s1 by simp
    have l2: "length ?b2 = length buf" using fits by (simp add: length_store)
    have "\<not> valid_indices segs" using Cons.prems(1) True by (simp add: valid_indices_Cons)
    moreover have "off + length ?I + length ?V + length ?R \<le> length ?b2" using fits l2 by simp
    ultimately have "write_geometry float_bits ?b2 (off + length ?I + length ?V) segs = Inl ValueOutOfRange"
      by (rule Cons.IH)
    then show ?thesis using w1 w2 by simp
  qed
qed

lemma write_payload_Inr:
  assumes "off \<le> length buf"
  shows "write_payload float_bits buf off segs anims = Inr (b, off') \<longleftrightarrow>
     valid_indices segs
     \<and> off + length (geometry_bytes float_bits segs @ animation_bytes float_bits anims) \<le> length buf
     \<and> off' = off + length (geometry_bytes float_bits segs @ animation_bytes float_bits anims)
     \<and> b = store buf off (geometry_bytes float_bits segs @ animation_bytes float_bits anims)"
proof -
  let ?G = "geometry_bytes float_bits segs"
  let ?A = "animation_bytes float_bits anims"
  show ?thesis
  proof (cases "valid_indices segs \<and> off + length ?G \<le> length buf")
    case False
    then have "\<And>r. write_geometry float_bits buf off segs \<noteq> Inr r"
      using write_geometry_Inr [OF assms, of float_bits segs] by (metis surj_pair)
    then obtain e where "write_geometry float_bits buf off segs = Inl e"
      by (cases "write_geometry float_bits buf off segs") auto
    then show ?thesis using False by (auto simp: write_payload_def)
  next
    case True
    let ?b1 = "store buf off ?G"
    have w: "write_geometry float_bits buf off segs = Inr (?b1, off + length ?G)"
      using write_geometry_Inr [OF assms, of float_bits segs ?b1 "off + length ?G"] True by simp
    have l: "length ?b1 = length buf" using True by (simp add: length_store)
    have p: "off + length ?G \<le> length ?b1" using True l by simp
    have s: "off + length ?G + length ?A \<le> length buf \<Longrightarrow>
      store ?b1 (off + length ?G) ?A = store buf off (?G @ ?A)"
      by (rule store_store)
    have "write_payload float_bits buf off segs anims = Inr (b, off')
       \<longleftrightarrow> write_animations float_bits ?b1 (off + length ?G) anims = Inr (b, off')"
      using w by (simp add: write_payload_def)
    also have "\<dots> \<longleftrightarrow> off + length ?G + length ?A \<le> length ?b1
         \<and> off' = off + length ?G + length ?A \<and> b = store ?b1 (off + length ?G) ?A"
      by (rule write_animations_Inr [OF p])
    also have "\<dots> \<longleftrightarrow> valid_indices segs \<and> off + length (?G @ ?A) \<le> length buf
         \<and> off' = off + length (?G @ ?A) \<and> b = store buf off (?G @ ?A)"
      using s True by (auto simp only: l length_append add.assoc)
    finally show ?thesis .
  qed
qed

lemma write_payload_value_error:
  "\<not> valid_indices segs \<Longrightarrow> off + length (geometry_bytes float_bits segs) \<le> length buf \<Longrightarrow>
   write_payload float_bits buf off segs anims = Inl ValueOutOfRange"
  by (simp add: write_payload_def write_geometry_value_error)

lemma write_payload_Inl:
  assumes "off \<le> length buf"
    and "\<not> (valid_indices segs
            \<and> off + length (geometry_bytes float_bits segs @ animation_bytes float_bits anims) \<le> length buf)"
  shows "\<exists>e. write_payload float_bits buf off segs anims = Inl e"
proof -
  have "\<And>r. write_payload float_bits buf off segs anims \<noteq> Inr r"
    using write_payload_Inr [OF assms(1), of float_bits segs anims] assms(2) by (metis surj_pair)
  then show ?thesis by (cases "write_payload float_bits buf off segs anims") auto
qed

lemma store_fresh:
  "length bs \<le> k \<Longrightarrow>
   store (map Some xs @ replicate k None) (length xs) bs
     = map Some (xs @ bs) @ replicate (k - length bs) None"
  by (simp add: store_def)

lemma new_Buffer_as_fresh: "new_Buffer n = map Some [] @ replicate n None"
  by (simp add: new_Buffer_def)

lemma write_header_eq:
  assumes "4 + byteLength s \<le> N"
  shows "write_header N s =
     (if byteLength s < 2 ^ 32
      then Inr (map Some (be32 (of_nat (byteLength s)) @ utf8 s)
                @ replicate (N - (4 + byteLength s)) None)
      else Inl ValueOutOfRange)"
proof (cases "byteLength s < 2 ^ 32")
  case False
  then show ?thesis by (simp add: write_header_def writeUInt32BE_def Let_def)
next
  case True
  let ?p = "be32 (of_nat (byteLength s))"
  have n: "\<not> 4294967295 < int (byteLength s)" using True by simp
  have f: "utf8_fit (min (byteLength s) (N - 4)) s = utf8 s"
    using assms by (intro utf8_fit_all) (simp add: byteLength_def)
  have b1: "store (new_Buffer N) 0 ?p = map Some ?p @ replicate (N - 4) None"
    using store_fresh [of ?p N "[]"] assms by (simp add: new_Buffer_def length_be32)
  have b2: "store (map Some ?p @ replicate (N - 4) None) 4 (utf8 s)
      = map Some (?p @ utf8 s) @ replicate (N - 4 - length (utf8 s)) None"
    using store_fresh [of "utf8 s" "N - 4" ?p] assms by (simp add: length_be32 byteLength_def)
  have w1: "writeUInt32BE (new_Buffer N) (int (byteLength s)) 0 = Inr (map Some ?p @ replicate (N - 4) None)"
    using n assms b1 by (simp add: writeUInt32BE_def new_Buffer_def)
  have w2: "buffer_write (map Some ?p @ replicate (N - 4) None) s 4 (byteLength s)
      = Inr (map Some (?p @ utf8 s) @ replicate (N - 4 - length (utf8 s)) None, length (utf8 s))"
    using assms f b2 by (simp add: buffer_write_def length_be32 Let_def)
  show ?thesis
    using True w1 w2 by (simp add: write_header_def Let_def byteLength_def)
qed

lemma writeData_alt:
  "writeData fmt float_bits prep this =
     (case write_header (buffer_size fmt prep this) (header_text fmt prep this) of
        Inl e \<Rightarrow>
          \<lparr> thrown = Some e, written = [], ended = False,
            allocated = buffer_size fmt prep this, finalOffset = 0,
            geometry_uses = uses_before_payload (config this) \<rparr>
      | Inr buffer \<Rightarrow>
          if includeBinary (config this) then
            (case write_payload float_bits buffer (4 + byteLength (header_text fmt prep this))
                    (geometryData (prepared prep this)) (animationData this) of
               Inl e \<Rightarrow>
                 \<lparr> thrown = Some e, written = [], ended = False,
                   allocated = buffer_size fmt prep this, finalOffset = 0,
                   geometry_uses = uses_before_payload (config this) @ [GeometryData] \<rparr>
             | Inr (buffer', currentOffset) \<Rightarrow>
                 \<lparr> thrown = None, written = [buffer'], ended = True,
                   allocated = buffer_size fmt prep this, finalOffset = currentOffset,
                   geometry_uses = uses_before_payload (config this) @ [GeometryData] \<rparr>)
          else
            \<lparr> thrown = None, written = [buffer], ended = True,
              allocated = buffer_size fmt prep this,
              finalOffset = 4 + byteLength (header_text fmt prep this),
              geometry_uses = uses_before_payload (config this) \<rparr>)"
  unfolding writeData_def Let_def buffer_size_def header_text_def prepared_def declared_size_def
    uses_before_payload_def
  by (rule refl)

lemma buffer_size_ge:
  "4 + byteLength (header_text fmt prep this) \<le> buffer_size fmt prep this"
  by (simp add: buffer_size_def)

lemma writeData_header_too_long:
  assumes "\<not> byteLength (header_text fmt prep this) < 2 ^ 32"
  shows "writeData fmt float_bits prep this =
     \<lparr> thrown = Some ValueOutOfRange, written = [], ended = False,
       allocated = buffer_size fmt prep this, finalOffset = 0,
       geometry_uses = uses_before_payload (config this) \<rparr>"
  using assms write_header_eq [OF buffer_size_ge, of fmt prep this]
  by (simp add: writeData_alt)

lemma writeData_no_binary:
  assumes "byteLength (header_text fmt prep this) < 2 ^ 32"
    and "\<not> includeBinary (config this)"
  shows "writeData fmt float_bits prep this =
     \<lparr> thrown = None,
       written = [map Some (be32 (of_nat (byteLength (header_text fmt prep this)))
                            @ utf8 (header_text fmt prep this))],
       ended = True,
       allocated = 4 + byteLength (header_text fmt prep this),
       finalOffset = 4 + byteLength (header_text fmt prep this),
       geometry_uses = uses_before_payload (config this) \<rparr>"
proof -
  have "buffer_size fmt prep this = 4 + byteLength (header_text fmt prep this)"
    using assms(2) by (simp add: buffer_size_def)
  then show ?thesis
    using assms write_header_eq [OF buffer_size_ge, of fmt prep this]
    by (simp add: writeData_alt)
qed

lemma header_then_payload:
  assumes "length bs \<le> k" and "length hs = off"
  shows "store (map Some hs @ replicate k None) off bs
     = map Some (hs @ bs) @ replicate (k - length bs) None"
  using store_fresh [OF assms(1), of hs] assms(2) by simp

lemma writeData_binary_ok:
  assumes "byteLength (header_text fmt prep this) < 2 ^ 32"
    and "includeBinary (config this)"
    and "valid_indices (geometryData (prepared prep this))"
    and "length (payload_bytes float_bits prep this) \<le> declared_size prep this"
  shows "writeData fmt float_bits prep this =
     \<lparr> thrown = None,
       written = [map Some (be32 (of_nat (byteLength (header_text fmt prep this)))
                            @ utf8 (header_text fmt prep this)
                            @ payload_bytes float_bits prep this)
                  @ replicate (declared_size prep this - length (payload_bytes float_bits prep this)) None],
       ended = True,
       allocated = 4 + byteLength (header_text fmt prep this) + declared_size prep this,
       finalOffset = 4 + byteLength (header_text fmt prep this) + length (payload_bytes float_bits prep this),
       geometry_uses = uses_before_payload (config this) @ [GeometryData] \<rparr>"
proof -
  let ?s = "header_text fmt prep this"
  let ?n = "byteLength ?s"
  let ?hs = "be32 (of_nat ?n) @ utf8 ?s"
  let ?P = "payload_bytes float_bits prep this"
  let ?D = "declared_size prep this"
  let ?H = "map Some ?hs @ replicate ?D None"
  have N: "buffer_size fmt prep this = 4 + ?n + ?D"
    using assms(2) by (simp add: buffer_size_def)
  have h: "write_header (buffer_size fmt prep this) ?s = Inr ?H"
    using assms(1) write_header_eq [OF buffer_size_ge, of fmt prep this] by (simp add: N)
  have lh: "length ?hs = 4 + ?n" by (simp add: length_be32 byteLength_def)
  have lH: "length ?H = 4 + ?n + ?D" using lh by simp
  have o: "4 + ?n \<le> length ?H" using lH by simp
  have st: "store ?H (4 + ?n) ?P = map Some (?hs @ ?P) @ replicate (?D - length ?P) None"
    using header_then_payload [OF assms(4) lh] .
  have "write_payload float_bits ?H (4 + ?n) (geometryData (prepared prep this)) (animationData this)
      = Inr (store ?H (4 + ?n) ?P, 4 + ?n + length ?P)"
    using write_payload_Inr [OF o, of float_bits "geometryData (prepared prep this)" "animationData this"
        "store ?H (4 + ?n) ?P" "4 + ?n + length ?P"] assms(3,4) lH
    by (simp add: payload_bytes_def)
  then show ?thesis
    using h assms(2) st N by (simp add: writeData_alt)
qed

lemma writeData_binary_fail:
  assumes "byteLength (header_text fmt prep this) < 2 ^ 32"
    and "includeBinary (config this)"
    and "\<not> (valid_indices (geometryData (prepared prep this))
            \<and> length (payload_bytes float_bits prep this) \<le> declared_size prep this)"
  shows "\<exists>e. writeData fmt float_bits prep this =
     \<lparr> thrown = Some e, written = [], ended = False,
       allocated = 4 + byteLength (header_text fmt prep this) + declared_size prep this,
       finalOffset = 0,
       geometry_uses = uses_before_payload (config this) @ [GeometryData] \<rparr>"
proof -
  let ?s = "header_text fmt prep this"
  let ?n = "byteLength ?s"
  let ?hs = "be32 (of_nat ?n) @ utf8 ?s"
  let ?D = "declared_size prep this"
  let ?H = "map Some ?hs @ replicate ?D None"
  have N: "buffer_size fmt prep this = 4 + ?n + ?D"
    using assms(2) by (simp add: buffer_size_def)
  have h: "write_header (buffer_size fmt prep this) ?s = Inr ?H"
    using assms(1) write_header_eq [OF buffer_size_ge, of fmt prep this] by (simp add: N)
  have lH: "length ?H = 4 + ?n + ?D" by (simp add: length_be32 byteLength_def)
  have o: "4 + ?n \<le> length ?H" using lH by simp
  obtain e where "write_payload float_bits ?H (4 + ?n) (geometryData (prepared prep this)) (animationData this) = Inl e"
    using write_payload_Inl [OF o, of "geometryData (prepared prep this)" float_bits "animationData this"]
      assms(3) lH by (auto simp: payload_bytes_def)
  then show ?thesis
    using h assms(2) N by (simp add: writeData_alt)
qed

lemma writeData_binary_value_error:
  assumes "byteLength (header_text fmt prep this) < 2 ^ 32"
    and "includeBinary (config this)"
    and "\<not> valid_indices (geometryData (prepared prep this))"
    and "length (geometry_bytes float_bits (geometryData (prepared prep this))) \<le> declared_size prep this"
  shows "writeData fmt float_bits prep this =
     \<lparr> thrown = Some ValueOutOfRange, written = [], ended = False,
       allocated = 4 + byteLength (header_text fmt prep this) + declared_size prep this,
       finalOffset = 0,
       geometry_uses = uses_before_payload (config this) @ [GeometryData] \<rparr>"
proof -
  let ?s = "header_text fmt prep this"
  let ?n = "byteLength ?s"
  let ?hs = "be32 (of_nat ?n) @ utf8 ?s"
  let ?D = "declared_size prep this"
  let ?H = "map Some ?hs @ replicate ?D None"
  have N: "buffer_size fmt prep this = 4 + ?n + ?D"
    using assms(2) by (simp add: buffer_size_def)
  have h: "write_header (buffer_size fmt prep this) ?s = Inr ?H"
    using assms(1) write_header_eq [OF buffer_size_ge, of fmt prep this] by (simp add: N)
  have lH: "length ?H = 4 + ?n + ?D" by (simp add: length_be32 byteLength_def)
  have "write_payload float_bits ?H (4 + ?n) (geometryData (prepared prep this)) (animationData this)
      = Inl ValueOutOfRange"
    using assms(3,4) lH by (intro write_payload_value_error) simp_all
  then show ?thesis
    using h assms(2) N by (simp add: writeData_alt)
qed

lemma writeData_thrown_iff:
  "thrown (writeData fmt float_bits prep this) = None \<longleftrightarrow>
     byteLength (header_text fmt prep this) < 2 ^ 32
     \<and> (includeBinary (config this) \<longrightarrow>
          valid_indices (geometryData (prepared prep this))
          \<and> length (payload_bytes float_bits prep this) \<le> declared_size prep this)"
proof (cases "byteLength (header_text fmt prep this) < 2 ^ 32")
  case False
  then show ?thesis using writeData_header_too_long [OF False, where float_bits = float_bits] by simp
next
  case n: True
  show ?thesis
  proof (cases "includeBinary (config this)")
    case False
    then show ?thesis using writeData_no_binary [OF n False, where float_bits = float_bits] n by simp
  next
    case b: True
    show ?thesis
    proof (cases "valid_indices (geometryData (prepared prep this))
            \<and> length (payload_bytes float_bits prep this) \<le> declared_size prep this")
      case True
      then show ?thesis using writeData_binary_ok [OF n b, where float_bits = float_bits] n b by simp
    next
      case False
      then obtain e where "thrown (writeData fmt float_bits prep this) = Some e"
        using writeData_binary_fail [OF n b False] by auto
      then show ?thesis using False n b by simp
    qed
  qed
qed

lemma writeData_failure:
  assumes "thrown (writeData fmt float_bits prep this) \<noteq> None"
  shows "written (writeData fmt float_bits prep this) = [] \<and> \<not> ended (writeData fmt float_bits prep this)"
proof (cases "byteLength (header_text fmt prep this) < 2 ^ 32")
  case False
  then show ?thesis using writeData_header_too_long [OF False, where float_bits = float_bits] by simp
next
  case n: True
  have b: "includeBinary (config this)"
  proof (rule ccontr)
    assume "\<not> includeBinary (config this)"
    then have "thrown (writeData fmt float_bits prep this) = None"
      using writeData_no_binary [OF n, where float_bits = float_bits] by simp
    then show False using assms by simp
  qed
  have "\<not> (valid_indices (geometryData (prepared prep this))
            \<and> length (payload_bytes float_bits prep this) \<le> declared_size prep this)"
    using assms writeData_binary_ok [OF n b, where float_bits = float_bits] by auto
  then obtain e where "writeData fmt float_bits prep this =
     \<lparr> thrown = Some e, written = [], ended = False,
       allocated = 4 + byteLength (header_text fmt prep this) + declared_size prep this,
       finalOffset = 0,
       geometry_uses = uses_before_payload (config this) @ [GeometryData] \<rparr>"
    using writeData_binary_fail [OF n b] by blast
  then show ?thesis by simp
qed

text \<open>What a successful run hands to the stream.\<close>

lemma writeData_success:
  assumes "thrown (writeData fmt float_bits prep this) = None"
  shows "written (writeData fmt float_bits prep this) =
     [map Some (be32 (of_nat (byteLength (header_text fmt prep this)))
                @ utf8 (header_text fmt prep this)
                @ (if includeBinary (config this) then payload_bytes float_bits prep this else []))
      @ replicate (if includeBinary (config this)
                   then declared_size prep this - length (payload_bytes float_bits prep this) else 0) None]"
    and "finalOffset (writeData fmt float_bits prep this) =
      4 + byteLength (header_text fmt prep this)
      + (if includeBinary (config this) then length (payload_bytes float_bits prep this) else 0)"
    and "ended (writeData fmt float_bits prep this)"
    and "byteLength (header_text fmt prep this) < 2 ^ 32"
proof -
  have c: "byteLength (header_text fmt prep this) < 2 ^ 32"
    "includeBinary (config this) \<Longrightarrow> valid_indices (geometryData (prepared prep this))"
    "includeBinary (config this) \<Longrightarrow> length (payload_bytes float_bits prep this) \<le> declared_size prep this"
    using assms by (simp_all add: writeData_thrown_iff)
  show "byteLength (header_text fmt prep this) < 2 ^ 32" by (rule c(1))
  show "written (writeData fmt float_bits prep this) =
     [map Some (be32 (of_nat (byteLength (header_text fmt prep this)))
                @ utf8 (header_text fmt prep this)
                @ (if includeBinary (config this) then payload_bytes float_bits prep this else []))
      @ replicate (if includeBinary (config this)
                   then declared_size prep this - length (payload_bytes float_bits prep this) else 0) None]"
    using writeData_no_binary [OF c(1), where float_bits = float_bits] writeData_binary_ok [OF c(1), where float_bits = float_bits] c(2,3)
    by (cases "includeBinary (config this)") simp_all
  show "finalOffset (writeData fmt float_bits prep this) =
      4 + byteLength (header_text fmt prep this)
      + (if includeBinary (config this) then length (payload_bytes float_bits prep this) else 0)"
    using writeData_no_binary [OF c(1), where float_bits = float_bits] writeData_binary_ok [OF c(1), where float_bits = float_bits] c(2,3)
    by (cases "includeBinary (config this)") simp_all
  show "ended (writeData fmt float_bits prep this)"
    using writeData_no_binary [OF c(1), where float_bits = float_bits] writeData_binary_ok [OF c(1), where float_bits = float_bits] c(2,3)
    by (cases "includeBinary (config this)") simp_all
qed

lemma writeData_allocated:
  "allocated (writeData fmt float_bits prep this) = buffer_size fmt prep this"
  by (simp add: writeData_alt split: sum.splits prod.splits)

lemma writeData_uses:
  "geometry_uses (writeData fmt float_bits prep this) =
     uses_before_payload (config this)
     @ (if includeBinary (config this) \<and> byteLength (header_text fmt prep this) < 2 ^ 32
        then [GeometryData] else [])"
  using write_header_eq [OF buffer_size_ge, of fmt prep this]
  by (simp add: writeData_alt split: sum.splits prod.splits)

lemma serialize_None_iff: "serialize fmt v = None \<longleftrightarrow> omitted v"
proof (cases v)
  case (JNumber n)
  then show ?thesis by (cases n) simp_all
qed simp_all

lemma concat_members:
  "concat (map (\<lambda>p. case serialize fmt (snd p) of
                        None \<Rightarrow> []
                      | Some t \<Rightarrow> [quote (fst p) @ js '':'' @ t]) xs)
   = map (\<lambda>p. quote (fst p) @ js '':'' @ JSON_stringify fmt (snd p))
       (filter (\<lambda>p. \<not> omitted (snd p)) xs)"
proof (induction xs)
  case Nil
  show ?case by simp
next
  case (Cons p xs)
  show ?case
  proof (cases "serialize fmt (snd p)")
    case None
    then have "omitted (snd p)" by (simp add: serialize_None_iff)
    then show ?thesis using None Cons.IH by simp
  next
    case (Some t)
    then have "\<not> omitted (snd p)" using serialize_None_iff [of fmt "snd p"] by simp
    then show ?thesis using Some Cons.IH by (simp add: JSON_stringify_def)
  qed
qed

lemma JSON_stringify_object:
  "JSON_stringify fmt (JObject ps) = js ''{'' @ join (js '','') (members fmt ps) @ js ''}''"
  by (simp add: JSON_stringify_def members_def concat_members)

lemma map_fst_members_keys:
  "length (members fmt ps) = length (serialized_keys ps)"
  by (simp add: members_def serialized_keys_def)

section \<open>What JSON.stringify writes is a JSON text\<close>

lemma unat_of_nat16: "n < 65536 \<Longrightarrow> unat (of_nat n :: 16 word) = n"
  by (simp add: unat_of_nat)

lemma is_digit_of_nat: "n < 10 \<Longrightarrow> is_digit (of_nat (48 + n))"
  using unat_of_nat16 [of "48 + n"] by (simp add: is_digit_def word_le_nat_alt)

lemma decimal_not_Nil: "decimal n \<noteq> []"
  by (subst decimal.simps) simp

lemma decimal_digits: "list_all is_digit (decimal n)"
proof (induction n rule: decimal.induct)
  case (1 n)
  show ?case
  proof (cases "n < 10")
    case True
    then show ?thesis using is_digit_of_nat [of n] by (subst decimal.simps) simp
  next
    case False
    then show ?thesis using 1 is_digit_of_nat [of "n mod 10"] by (subst decimal.simps) simp
  qed
qed

lemma hd_decimal_zero: "hd (decimal n) = 48 \<Longrightarrow> n < 10"
proof (induction n rule: decimal.induct)
  case (1 n)
  show ?case
  proof (rule ccontr)
    assume f: "\<not> n < 10"
    then have "decimal n = decimal (n div 10) @ [of_nat (48 + n mod 10)]"
      by (subst decimal.simps) simp
    then have "hd (decimal (n div 10)) = 48"
      using 1(2) by (simp add: decimal_not_Nil)
    then have l: "n div 10 < 10" using 1(1) f by simp
    have d2: "0 < n div 10" using f by simp
    have d1: "decimal (n div 10) = [of_nat (48 + n div 10)]"
      using l by (subst decimal.simps) simp
    note d = d1 d2
    have "unat (of_nat (48 + n div 10) :: 16 word) = 48 + n div 10"
      using \<open>n div 10 < 10\<close> by (intro unat_of_nat16) simp
    moreover have "of_nat (48 + n div 10) = (48 :: 16 word)"
      using \<open>hd (decimal (n div 10)) = 48\<close> d(1) by simp
    ultimately have "unat (48 :: 16 word) = 48 + n div 10" by (simp only:)
    then show False using d(2) by simp
  qed
qed

lemma json_int_decimal: "json_int (decimal n)"
proof -
  have "length (decimal n) = 1" if "hd (decimal n) = 0x30"
  proof -
    have "n < 10" using that hd_decimal_zero by simp
    then show ?thesis by (subst decimal.simps) simp
  qed
  then show ?thesis
    by (simp add: json_int_def json_digits_def decimal_not_Nil decimal_digits)
qed

lemma takeWhile_all: "list_all P xs \<Longrightarrow> takeWhile P xs = xs"
  by (induction xs) simp_all

lemma dropWhile_all: "list_all P xs \<Longrightarrow> dropWhile P xs = []"
  by (induction xs) simp_all

lemma json_number_digits:
  assumes "json_int ds"
  shows "json_number ds" and "json_number (js ''-'' @ ds)"
proof -
  have d: "ds \<noteq> []" "list_all is_digit ds"
    using assms by (simp_all add: json_int_def json_digits_def)
  then obtain x xs where c: "ds = x # xs" by (cases ds) auto
  then have "is_digit x" using d(2) by simp
  then have x: "x \<noteq> 0x2D" by (auto simp: is_digit_def)
  have t: "take 1 ds \<noteq> [0x2D]" using c x by simp
  show "json_number ds"
    using assms t d by (simp add: json_number_def takeWhile_all dropWhile_all json_frac_def json_exp_def)
  show "json_number (js ''-'' @ ds)"
    using assms d by (simp add: json_number_def js_def takeWhile_all dropWhile_all json_frac_def json_exp_def)
qed

lemma json_number_to_string:
  assumes "json_number (fmt q)"
  shows "json_number (number_to_string fmt q)"
  using assms json_number_digits [OF json_int_decimal]
  by (simp add: number_to_string_def)

lemma is_hex_digit_hex_char: "d < 16 \<Longrightarrow> is_hex_digit (hex_char d)"
  using unat_of_nat16 [of "48 + d"] unat_of_nat16 [of "87 + d"]
  by (simp add: is_hex_digit_def hex_digit_def hex_char_def word_le_nat_alt)

lemma json_chars_unicode_escape:
  "json_chars (unicode_escape u @ r) = json_chars r"
proof -
  have "unat u < 65536" using unsigned_less [of u, where 'a = nat] by simp
  then have "unat u div 4096 < 16" by simp
  then show ?thesis
    by (simp add: unicode_escape_def is_hex_digit_hex_char)
qed

lemma json_chars_escape_unit: "json_chars (escape_unit u @ r) = json_chars r"
proof (cases "u < 0x20 \<or> is_high_surrogate u \<or> is_low_surrogate u")
  case True
  then show ?thesis
    by (auto simp: escape_unit_def json_chars_unicode_escape simple_escapes_def)
next
  case False
  then show ?thesis
    by (auto simp: escape_unit_def simple_escapes_def not_less)
qed

lemma json_chars_quote_units: "json_chars (quote_units s @ r) = json_chars r"
proof (induction s rule: quote_units.induct)
  case 1
  show ?case by simp
next
  case (2 u)
  show ?case by (simp add: json_chars_escape_unit)
next
  case (3 u v us)
  show ?case
  proof (cases "is_high_surrogate u \<and> is_low_surrogate v")
    case True
    then have n: "u \<noteq> 0x5C" by (auto simp: is_high_surrogate_def)
    have q: "quote_units (u # v # us) @ r = u # v # (quote_units us @ r)"
      using True by simp
    have "json_chars (quote_units us @ r) = json_chars r"
      using 3(1) True by simp
    then show ?thesis unfolding q using True n by simp
  next
    case False
    have q: "quote_units (u # v # us) @ r = escape_unit u @ (quote_units (v # us) @ r)"
      using False by auto
    have "json_chars (quote_units (v # us) @ r) = json_chars r"
      using 3(2) False by simp
    then show ?thesis unfolding q by (simp only: json_chars_escape_unit)
  qed
qed

lemma json_string_quote: "json_string (quote s)"
  using json_chars_quote_units [of s "[]"]
  by (simp add: json_string_def quote_def butlast_append)

lemma json_elements_join:
  "ts \<noteq> [] \<Longrightarrow> (\<And>t. t \<in> set ts \<Longrightarrow> json_value t) \<Longrightarrow> json_elements (join (js '','') ts)"
proof (induction "js '',''" ts rule: join.induct)
  case 1
  then show ?case by simp
next
  case (2 x)
  then show ?case by (simp add: one_element)
next
  case (3 x y ys)
  have "json_elements (join (js '','') (y # ys))" using 3 by simp
  moreover have "json_value x" using 3(3) by simp
  ultimately show ?case by (simp add: more_elements)
qed

lemma json_members_join:
  "ms \<noteq> [] \<Longrightarrow> (\<And>m. m \<in> set ms \<Longrightarrow> json_member m) \<Longrightarrow> json_members (join (js '','') ms)"
proof (induction "js '',''" ms rule: join.induct)
  case 1
  then show ?case by simp
next
  case (2 x)
  then show ?case by (simp add: one_member)
next
  case (3 x y ys)
  have "json_members (join (js '','') (y # ys))" using 3 by simp
  moreover have "json_member x" using 3(3) by simp
  ultimately show ?case by (simp add: more_members)
qed

lemma json_array_join:
  assumes "\<And>t. t \<in> set ts \<Longrightarrow> json_value t"
  shows "json_array (js ''['' @ join (js '','') ts @ js '']'')"
proof (cases "ts = []")
  case True
  then show ?thesis using empty_array by (simp add: js_def)
next
  case False
  then show ?thesis using assms by (intro array json_elements_join)
qed

lemma json_object_join:
  assumes "\<And>m. m \<in> set ms \<Longrightarrow> json_member m"
  shows "json_object (js ''{'' @ join (js '','') ms @ js ''}'')"
proof (cases "ms = []")
  case True
  then show ?thesis using empty_object by (simp add: js_def)
next
  case False
  then show ?thesis using assms by (intro object json_members_join)
qed

lemma json_value_serialize:
  "(\<And>q. json_number (fmt q)) \<Longrightarrow> serialize fmt v = Some t \<Longrightarrow> json_value t"
proof (induction fmt v arbitrary: t rule: serialize.induct)
  case (1 fmt)
  then show ?case by simp
next
  case (2 fmt f)
  then show ?case by simp
next
  case (3 fmt)
  then show ?case using json_null by simp
next
  case (4 fmt b)
  then show ?case using json_true json_false by auto
next
  case (5 fmt q)
  have "json_number (number_to_string fmt q)"
    using 5(1) by (rule json_number_to_string)
  then show ?case using 5(2) by (auto intro: json_num)
next
  case (7 fmt s)
  then show ?case using json_string_quote [of s] by (auto intro: json_str)
next
  case (8 fmt xs)
  let ?ts = "map (\<lambda>x. case serialize fmt x of None \<Rightarrow> js ''null'' | Some t \<Rightarrow> t) xs"
  have "json_value u" if h: "u \<in> set ?ts" for u
  proof -
    obtain x where x: "x \<in> set xs" "u = (case serialize fmt x of None \<Rightarrow> js ''null'' | Some t \<Rightarrow> t)"
      using h by auto
    show ?thesis
    proof (cases "serialize fmt x")
      case None
      then show ?thesis using x(2) json_null by simp
    next
      case (Some w)
      then show ?thesis using 8(1) [OF x(1) 8(2) Some] x(2) by simp
    qed
  qed
  then have "json_array (js ''['' @ join (js '','') ?ts @ js '']'')"
    by (rule json_array_join)
  then show ?case using 8(3) by (auto intro: json_arr)
next
  case (9 fmt ps)
  let ?ms = "concat (map (\<lambda>p. case serialize fmt (snd p) of
                                   None \<Rightarrow> []
                                 | Some t \<Rightarrow> [quote (fst p) @ js '':'' @ t])
                          (entries ps))"
  have "json_member m" if h: "m \<in> set ?ms" for m
  proof -
    obtain p where p: "p \<in> set (entries ps)"
      "m \<in> set (case serialize fmt (snd p) of None \<Rightarrow> [] | Some t \<Rightarrow> [quote (fst p) @ js '':'' @ t])"
      using h by auto
    then obtain w where w: "serialize fmt (snd p) = Some w" "m = quote (fst p) @ js '':'' @ w"
      by (cases "serialize fmt (snd p)") auto
    have "json_value w" using 9(1) [OF p(1) 9(2) w(1)] .
    then show ?thesis unfolding w(2) using json_string_quote by (intro member)
  qed
  then have "json_object (js ''{'' @ join (js '','') ?ms @ js ''}'')"
    by (rule json_object_join)
  then show ?case using 9(3) by (auto intro: json_obj)
qed (auto intro: json_null)

lemma json_object_stringify:
  assumes "\<And>q. json_number (fmt q)"
  shows "json_object (JSON_stringify fmt (JObject ps))"
proof -
  have "json_member m" if h: "m \<in> set (members fmt ps)" for m
  proof -
    obtain p where p: "p \<in> set (entries ps)" "\<not> omitted (snd p)"
      "m = quote (fst p) @ js '':'' @ JSON_stringify fmt (snd p)"
      using h by (auto simp: members_def)
    obtain w where w: "serialize fmt (snd p) = Some w"
      using p(2) serialize_None_iff [of fmt "snd p"] by (cases "serialize fmt (snd p)") auto
    have "json_value w" using assms w by (rule json_value_serialize)
    then show ?thesis unfolding p(3) using w json_string_quote
      by (simp add: JSON_stringify_def member)
  qed
  then show ?thesis
    unfolding JSON_stringify_object by (rule json_object_join)
qed

section \<open>UTF-8 read back\<close>

lemma unat_byte: "x < 256 \<Longrightarrow> unat (of_nat x :: byte) = x"
  by (simp add: unat_of_nat)

lemma decode1:
  "unat a < 0x80 \<Longrightarrow> utf8_decode (a # rest) = decoded (unat a) (utf8_decode rest)"
  by simp

lemma decode2:
  assumes "unat a = 0xC0 + h" "unat b = 0x80 + l" "2 \<le> h" "h < 32" "l < 64"
  shows "utf8_decode (a # b # rest) = decoded (h * 64 + l) (utf8_decode rest)"
  using assms by (simp add: is_continuation_def)

lemma decode3:
  assumes "unat a = 0xE0 + h" "unat b = 0x80 + m" "unat c = 0x80 + l" "h < 16" "m < 64" "l < 64"
    and "0x800 \<le> (h * 64 + m) * 64 + l"
    and "\<not> (0xD800 \<le> (h * 64 + m) * 64 + l \<and> (h * 64 + m) * 64 + l \<le> 0xDFFF)"
  shows "utf8_decode (a # b # c # rest) = decoded ((h * 64 + m) * 64 + l) (utf8_decode rest)"
  using assms by (simp add: is_continuation_def Let_def)

lemma decode4:
  assumes "unat a = 0xF0 + h" "unat b = 0x80 + m" "unat c = 0x80 + k" "unat d = 0x80 + l"
    "h < 5" "m < 64" "k < 64" "l < 64"
    and "0x10000 \<le> ((h * 64 + m) * 64 + k) * 64 + l"
    and "((h * 64 + m) * 64 + k) * 64 + l \<le> 0x10FFFF"
  shows "utf8_decode (a # b # c # d # rest)
     = decoded (((h * 64 + m) * 64 + k) * 64 + l) (utf8_decode rest)"
  using assms by (simp add: is_continuation_def Let_def)

lemma split64:
  fixes c :: nat
  shows "c div 64 * 64 + c mod 64 = c"
    and "(c div 4096 * 64 + c div 64 mod 64) * 64 + c mod 64 = c"
    and "((c div 262144 * 64 + c div 4096 mod 64) * 64 + c div 64 mod 64) * 64 + c mod 64 = c"
proof -
  show a: "c div 64 * 64 + c mod 64 = c" by simp
  have b: "c div 4096 = c div 64 div 64" by (simp add: div_mult2_eq [symmetric])
  have b': "c div 4096 * 64 + c div 64 mod 64 = c div 64" unfolding b by simp
  show "(c div 4096 * 64 + c div 64 mod 64) * 64 + c mod 64 = c"
    unfolding b' by simp
  have d: "c div 262144 = c div 4096 div 64" by (simp add: div_mult2_eq [symmetric])
  have d': "c div 262144 * 64 + c div 4096 mod 64 = c div 4096" unfolding d by simp
  show "((c div 262144 * 64 + c div 4096 mod 64) * 64 + c div 64 mod 64) * 64 + c mod 64 = c"
    unfolding d' b' by simp
qed

text \<open>Decoding the encoding of a Unicode scalar value, a code point that is no surrogate.\<close>

lemma utf8_decode_code_point:
  assumes "c < 0xD800 \<or> (0xDFFF < c \<and> c \<le> 0x10FFFF)"
  shows "utf8_decode (utf8_code_point c @ rest) = decoded c (utf8_decode rest)"
proof -
  consider (one) "c < 0x80" | (two) "0x80 \<le> c" "c < 0x800" | (three) "0x800 \<le> c" "c < 0x10000"
    | (four) "0x10000 \<le> c"
    by linarith
  then show ?thesis
  proof cases
    case one
    have e: "utf8_code_point c = [of_nat c]"
      using one by (simp add: utf8_code_point_def)
    have u: "unat (of_nat c :: byte) = c"
      using one by (intro unat_byte) simp
    show ?thesis
      unfolding e using decode1 [of "of_nat c" rest] one unfolding u by simp
  next
    case two
    let ?a = "of_nat (0xC0 + c div 64) :: byte"
    let ?b = "of_nat (0x80 + c mod 64) :: byte"
    have e: "utf8_code_point c = [?a, ?b]"
      using two by (simp add: utf8_code_point_def)
    have "c div 64 < 32" using two by simp
    then have ua: "unat ?a = 0xC0 + c div 64" by (intro unat_byte) simp
    have ub: "unat ?b = 0x80 + c mod 64" by (intro unat_byte) simp
    have "utf8_decode (?a # ?b # rest) = decoded (c div 64 * 64 + c mod 64) (utf8_decode rest)"
      using two by (intro decode2 ua ub) simp_all
    then show ?thesis
      unfolding e by (simp only: split64 append_Cons append_Nil)
  next
    case three
    let ?a = "of_nat (0xE0 + c div 4096) :: byte"
    let ?b = "of_nat (0x80 + c div 64 mod 64) :: byte"
    let ?c = "of_nat (0x80 + c mod 64) :: byte"
    have e: "utf8_code_point c = [?a, ?b, ?c]"
      using three by (simp add: utf8_code_point_def)
    have h: "c div 4096 < 16" using three by simp
    then have ua: "unat ?a = 0xE0 + c div 4096" by (intro unat_byte) simp
    have ub: "unat ?b = 0x80 + c div 64 mod 64" by (intro unat_byte) simp
    have uc: "unat ?c = 0x80 + c mod 64" by (intro unat_byte) simp
    have "utf8_decode (?a # ?b # ?c # rest)
        = decoded ((c div 4096 * 64 + c div 64 mod 64) * 64 + c mod 64) (utf8_decode rest)"
      using three assms h by (intro decode3 ua ub uc) (simp_all only: split64, auto)
    then show ?thesis
      unfolding e by (simp only: split64 append_Cons append_Nil)
  next
    case four
    let ?a = "of_nat (0xF0 + c div 262144) :: byte"
    let ?b = "of_nat (0x80 + c div 4096 mod 64) :: byte"
    let ?c = "of_nat (0x80 + c div 64 mod 64) :: byte"
    let ?d = "of_nat (0x80 + c mod 64) :: byte"
    have e: "utf8_code_point c = [?a, ?b, ?c, ?d]"
      using four by (simp add: utf8_code_point_def)
    have h: "c div 262144 < 5" using four assms by simp
    then have ua: "unat ?a = 0xF0 + c div 262144" by (intro unat_byte) simp
    have ub: "unat ?b = 0x80 + c div 4096 mod 64" by (intro unat_byte) simp
    have uc: "unat ?c = 0x80 + c div 64 mod 64" by (intro unat_byte) simp
    have ud: "unat ?d = 0x80 + c mod 64" by (intro unat_byte) simp
    have "utf8_decode (?a # ?b # ?c # ?d # rest)
        = decoded (((c div 262144 * 64 + c div 4096 mod 64) * 64 + c div 64 mod 64) * 64 + c mod 64)
            (utf8_decode rest)"
      using four assms h by (intro decode4 ua ub uc ud) (simp_all only: split64, auto)
    then show ?thesis
      unfolding e by (simp only: split64 append_Cons append_Nil)
  qed
qed

lemma unat_unit_less: "unat (u :: 16 word) < 65536"
  using unsigned_less [of u, where 'a = nat] by simp

lemma surrogate_nat:
  "is_high_surrogate u \<longleftrightarrow> 0xD800 \<le> unat u \<and> unat u \<le> 0xDBFF"
  "is_low_surrogate u \<longleftrightarrow> 0xDC00 \<le> unat u \<and> unat u \<le> 0xDFFF"
  by (simp_all add: is_high_surrogate_def is_low_surrogate_def word_le_nat_alt)

lemma code_units_unit: "code_units (unat (u :: 16 word)) = [u]"
  using unat_unit_less [of u] by (simp add: code_units_def)

lemma code_units_pair:
  assumes "is_high_surrogate u" "is_low_surrogate v"
  shows "code_units (0x10000 + (unat u - 0xD800) * 1024 + (unat v - 0xDC00)) = [u, v]"
proof -
  let ?h = "unat u - 0xD800" and ?l = "unat v - 0xDC00"
  have r: "0xD800 \<le> unat u" "unat u \<le> 0xDBFF" "0xDC00 \<le> unat v" "unat v \<le> 0xDFFF"
    using assms by (simp_all add: surrogate_nat)
  have l: "?l < 1024" using r by simp
  have d: "(?h * 1024 + ?l) div 1024 = ?h" using l by simp
  have m: "(?h * 1024 + ?l) mod 1024 = ?l" using l by simp
  have a: "0xD800 + ?h = unat u" "0xDC00 + ?l = unat v" using r by simp_all
  have "code_units (0x10000 + (?h * 1024 + ?l))
      = [of_nat (0xD800 + (?h * 1024 + ?l) div 1024), of_nat (0xDC00 + (?h * 1024 + ?l) mod 1024)]"
    by (simp add: code_units_def)
  also have "\<dots> = [of_nat (unat u), of_nat (unat v)]"
    unfolding d m a ..
  finally show ?thesis by (simp add: add.assoc)
qed

lemma utf8_decode_unit:
  assumes "\<not> is_high_surrogate u" "\<not> is_low_surrogate u"
  shows "utf8_decode (utf8_unit u @ rest) = map_option (\<lambda>r. u # r) (utf8_decode rest)"
proof -
  have "unat u < 0xD800 \<or> (0xDFFF < unat u \<and> unat u \<le> 0x10FFFF)"
    using assms unat_unit_less [of u] by (auto simp: surrogate_nat)
  then have "utf8_decode (utf8_code_point (unat u) @ rest) = decoded (unat u) (utf8_decode rest)"
    by (rule utf8_decode_code_point)
  then show ?thesis
    using assms by (simp add: utf8_unit_def decoded_def code_units_unit)
qed

lemma utf8_decode_pair:
  assumes "is_high_surrogate u" "is_low_surrogate v"
  shows "utf8_decode (utf8_pair u v @ rest) = map_option (\<lambda>r. u # v # r) (utf8_decode rest)"
proof -
  let ?c = "0x10000 + (unat u - 0xD800) * 1024 + (unat v - 0xDC00)"
  have r: "0xD800 \<le> unat u" "unat u \<le> 0xDBFF" "0xDC00 \<le> unat v" "unat v \<le> 0xDFFF"
    using assms by (simp_all add: surrogate_nat)
  have "?c < 0xD800 \<or> (0xDFFF < ?c \<and> ?c \<le> 0x10FFFF)"
    using r by simp
  then have "utf8_decode (utf8_code_point ?c @ rest) = decoded ?c (utf8_decode rest)"
    by (rule utf8_decode_code_point)
  then show ?thesis
    unfolding utf8_pair_def decoded_def code_units_pair [OF assms]
    by (cases "utf8_decode rest") simp_all
qed

lemma utf8_decode_utf8: "well_formed s \<Longrightarrow> utf8_decode (utf8 s) = Some s"
proof (induction s rule: utf8.induct)
  case 1
  show ?case by simp
next
  case (2 u)
  then show ?case using utf8_decode_unit [of u "[]"] by simp
next
  case (3 u v us)
  show ?case
  proof (cases "is_high_surrogate u \<and> is_low_surrogate v")
    case True
    then have "well_formed us" using 3(3) by simp
    then have "utf8_decode (utf8 us) = Some us" using 3(1) True by simp
    moreover have "utf8 (u # v # us) = utf8_pair u v @ utf8 us" using True by simp
    ultimately show ?thesis using utf8_decode_pair [of u v "utf8 us"] True by simp
  next
    case False
    then have w: "\<not> is_high_surrogate u" "\<not> is_low_surrogate u" "well_formed (v # us)"
      using 3(3) by auto
    then have "utf8_decode (utf8 (v # us)) = Some (v # us)" using 3(2) False by simp
    moreover have "utf8 (u # v # us) = utf8_unit u @ utf8 (v # us)" using False by auto
    ultimately show ?thesis using utf8_decode_unit [OF w(1,2), of "utf8 (v # us)"] by simp
  qed
qed

lemma well_formed_Cons:
  "\<not> is_high_surrogate u \<Longrightarrow> \<not> is_low_surrogate u \<Longrightarrow> well_formed (u # us) = well_formed us"
  by (cases us) simp_all

lemma well_formed_pair:
  "is_high_surrogate u \<Longrightarrow> is_low_surrogate v \<Longrightarrow> well_formed (u # v # us) = well_formed us"
  by simp

lemma well_formed_append: "well_formed a \<Longrightarrow> well_formed b \<Longrightarrow> well_formed (a @ b)"
proof (induction a rule: well_formed.induct)
  case 1
  then show ?case by simp
next
  case (2 u)
  then show ?case by (simp add: well_formed_Cons)
next
  case (3 u v us)
  show ?case
  proof (cases "is_high_surrogate u \<and> is_low_surrogate v")
    case True
    then show ?thesis using 3 by simp
  next
    case False
    then have w: "\<not> is_high_surrogate u" "\<not> is_low_surrogate u" "well_formed (v # us)"
      using 3(3) by auto
    then have "well_formed ((v # us) @ b)" using 3(2) 3(4) False by simp
    moreover have "well_formed (u # ((v # us) @ b)) = well_formed ((v # us) @ b)"
      using w(1,2) by (rule well_formed_Cons)
    ultimately show ?thesis by (simp only: append_Cons)
  qed
qed

lemma ascii_not_surrogate: "is_ascii u \<Longrightarrow> \<not> is_high_surrogate u \<and> \<not> is_low_surrogate u"
  by (auto simp: is_ascii_def is_high_surrogate_def is_low_surrogate_def word_le_nat_alt word_less_nat_alt)

lemma well_formed_ascii: "list_all is_ascii s \<Longrightarrow> well_formed s"
  by (induction s) (simp_all add: well_formed_Cons ascii_not_surrogate)

lemma is_ascii_digit: "is_digit u \<Longrightarrow> is_ascii u"
  by (auto simp: is_digit_def is_ascii_def word_le_nat_alt word_less_nat_alt)

lemma is_ascii_hex: "is_hex_digit u \<Longrightarrow> is_ascii u"
  by (auto simp: is_hex_digit_def hex_digit_def is_ascii_def word_le_nat_alt word_less_nat_alt split: if_splits)

lemma well_formed_json_chars: "json_chars s \<Longrightarrow> well_formed s"
proof (induction s rule: length_induct)
  case (1 s)
  show ?case
  proof (cases s)
    case Nil
    then show ?thesis by simp
  next
    case (Cons u us)
    have bs: "\<not> is_high_surrogate (0x5C :: 16 word)" "\<not> is_low_surrogate (0x5C :: 16 word)"
      by (simp_all add: is_high_surrogate_def is_low_surrogate_def)
    show ?thesis
    proof (cases "u = 0x5C")
      case True
      then obtain e r where us: "us = e # r" using 1(2) Cons by (cases us) auto
      show ?thesis
      proof (cases "e = 0x75")
        case e: True
        then obtain a b c d r' where r: "r = a # b # c # d # r'"
          "is_hex_digit a" "is_hex_digit b" "is_hex_digit c" "is_hex_digit d" "json_chars r'"
          using 1(2) Cons True us by (auto split: list.splits)
        have "well_formed r'" using 1(1) r(6) Cons us r(1) by simp
        moreover have "list_all is_ascii [u, e, a, b, c, d]"
          using True e r(2-5) by (simp add: is_ascii_hex) (simp add: is_ascii_def)
        ultimately have "well_formed ([u, e, a, b, c, d] @ r')"
          by (intro well_formed_append) (rule well_formed_ascii)
        then show ?thesis using Cons us r(1) by simp
      next
        case e: False
        then have h: "e \<in> set simple_escapes" "json_chars r"
          using 1(2) Cons True us by simp_all
        have "well_formed r" using 1(1) h(2) Cons us by simp
        moreover have "list_all is_ascii [u, e]"
          using True h(1) by (auto simp: simple_escapes_def is_ascii_def)
        ultimately have "well_formed ([u, e] @ r)"
          by (intro well_formed_append) (rule well_formed_ascii)
        then show ?thesis using Cons us by simp
      qed
    next
      case False
      show ?thesis
      proof (cases "is_high_surrogate u")
        case True
        then obtain v r where us: "us = v # r" "is_low_surrogate v" "json_chars r"
          using 1(2) Cons False by (auto split: list.splits)
        have "well_formed r" using 1(1) us(3) Cons us(1) by simp
        then show ?thesis using Cons us True by simp
      next
        case h: False
        then have p: "\<not> is_low_surrogate u" "json_chars us"
          using 1(2) Cons False by simp_all
        have "well_formed us" using 1(1) p(2) Cons by simp
        then show ?thesis using Cons h p(1) by (simp add: well_formed_Cons)
      qed
    qed
  qed
qed

lemma well_formed_json_string:
  assumes "json_string s"
  shows "well_formed s"
proof -
  have s: "2 \<le> length s" "hd s = 0x22" "last s = 0x22" "json_chars (butlast (tl s))"
    using assms by (simp_all add: json_string_def)
  then have n: "s \<noteq> []" "tl s \<noteq> []" by (cases s; auto)+
  have "s = hd s # tl s" using n(1) by simp
  also have "tl s = butlast (tl s) @ [last (tl s)]" using n(2) by simp
  also have "last (tl s) = last s" using n by (simp add: last_tl)
  finally have e: "s = [0x22] @ butlast (tl s) @ [0x22]" using s(2,3) by simp
  have q: "well_formed [0x22 :: 16 word]"
    by (simp add: is_high_surrogate_def is_low_surrogate_def)
  have "well_formed (butlast (tl s))"
    using s(4) by (rule well_formed_json_chars)
  then have "well_formed (butlast (tl s) @ [0x22])"
    using q by (rule well_formed_append)
  then have "well_formed ([0x22] @ butlast (tl s) @ [0x22])"
    by (rule well_formed_append [OF q])
  then show ?thesis using e by simp
qed

lemma ascii_digits: "list_all is_digit ds \<Longrightarrow> list_all is_ascii ds"
  by (induction ds) (simp_all add: is_ascii_digit)

lemma ascii_json_exp:
  assumes "json_exp s"
  shows "list_all is_ascii s"
proof (cases s)
  case Nil
  then show ?thesis by simp
next
  case (Cons e r)
  then have e: "e = 0x65 \<or> e = 0x45"
    and d: "json_digits (if take 1 r = [0x2B] \<or> take 1 r = [0x2D] then tl r else r)"
    using assms Cons by (auto simp: json_exp_def)
  have a: "is_ascii e" using e by (auto simp: is_ascii_def)
  have "list_all is_ascii r"
  proof (cases "take 1 r = [0x2B] \<or> take 1 r = [0x2D]")
    case True
    then obtain x xs where r: "r = x # xs" "x = 0x2B \<or> x = 0x2D" by (cases r) auto
    have "list_all is_ascii xs" using d True r(1) by (simp add: json_digits_def ascii_digits)
    moreover have "is_ascii x" using r(2) by (auto simp: is_ascii_def)
    ultimately show ?thesis using r(1) by simp
  next
    case False
    then show ?thesis using d by (simp add: json_digits_def ascii_digits)
  qed
  then show ?thesis using a Cons by simp
qed

lemma take_takeWhile: "take (length (takeWhile P xs)) xs = takeWhile P xs"
  by (induction xs) simp_all

lemma drop_takeWhile: "drop (length (takeWhile P xs)) xs = dropWhile P xs"
  by (induction xs) simp_all

lemma ascii_takeWhile_digit: "list_all is_ascii (takeWhile is_digit xs)"
  by (induction xs) (simp_all add: is_ascii_digit)

lemma ascii_json_number:
  assumes "json_number s"
  shows "list_all is_ascii s"
proof -
  define s1 where "s1 = (if take 1 s = [0x2D] then tl s else s)"
  define s2 where "s2 = dropWhile is_digit s1"
  define fp where "fp = (if take 1 s2 = [0x2E] then 0x2E # takeWhile is_digit (tl s2) else [])"
  define ep where "ep = drop (length fp) s2"
  have eq: "json_number s = (json_int (takeWhile is_digit s1) \<and> json_frac fp \<and> json_exp ep)"
    unfolding json_number_def Let_def s1_def s2_def fp_def ep_def by (rule refl)
  have "json_int (takeWhile is_digit s1) \<and> json_frac fp \<and> json_exp ep"
    using assms unfolding eq .
  then have j: "json_exp ep" by (rule conjunct2 [THEN conjunct2])
  have a1: "list_all is_ascii (takeWhile is_digit s1)"
    by (rule ascii_takeWhile_digit)
  have a3: "list_all is_ascii ep" using j by (rule ascii_json_exp)
  have a23: "list_all is_ascii s2"
  proof (cases "take 1 s2 = [0x2E]")
    case True
    then obtain r where r: "s2 = 0x2E # r" by (cases s2) auto
    have f: "fp = 0x2E # takeWhile is_digit r"
      unfolding fp_def r by simp
    have "ep = dropWhile is_digit r"
      unfolding ep_def f unfolding r by (simp add: drop_takeWhile)
    then have "list_all is_ascii (dropWhile is_digit r)" using a3 by simp
    moreover have "list_all is_ascii (takeWhile is_digit r)" by (rule ascii_takeWhile_digit)
    ultimately have "list_all is_ascii (takeWhile is_digit r @ dropWhile is_digit r)"
      by (simp only: list_all_append)
    then have "list_all is_ascii r" by simp
    then show ?thesis unfolding r by (simp add: is_ascii_def)
  next
    case False
    then have "fp = []" by (simp add: fp_def)
    then have "ep = s2" by (simp add: ep_def)
    then show ?thesis using a3 by simp
  qed
  have "list_all is_ascii (takeWhile is_digit s1 @ dropWhile is_digit s1)"
    using a1 a23 unfolding s2_def by (simp only: list_all_append)
  then have l: "list_all is_ascii s1" by simp
  show ?thesis
  proof (cases "take 1 s = [0x2D]")
    case True
    then obtain r where r: "s = 0x2D # r" by (cases s) auto
    then have "s1 = r" by (simp add: s1_def)
    then show ?thesis using l r by (simp add: is_ascii_def)
  next
    case False
    then have "s1 = s" by (simp add: s1_def)
    then show ?thesis using l by simp
  qed
qed

lemma well_formed_literals:
  "well_formed (js ''null'')" "well_formed (js ''true'')" "well_formed (js ''false'')"
  "well_formed (js ''{}'')" "well_formed (js ''[]'')" "well_formed (js ''{'')" "well_formed (js ''}'')"
  "well_formed (js ''['')" "well_formed (js '']'')" "well_formed (js '':'')" "well_formed (js '','')"
  by (simp_all add: js_def is_high_surrogate_def is_low_surrogate_def)

lemma well_formed_json:
  "json_value t \<Longrightarrow> well_formed t"
  "json_object t \<Longrightarrow> well_formed t"
  "json_array t \<Longrightarrow> well_formed t"
  "json_member t \<Longrightarrow> well_formed t"
  "json_members t \<Longrightarrow> well_formed t"
  "json_elements t \<Longrightarrow> well_formed t"
proof (induction rule: json_value_json_object_json_array_json_member_json_members_json_elements.inducts)
  case (json_num s)
  then show ?case by (intro well_formed_ascii ascii_json_number)
next
  case (json_str s)
  then show ?case by (rule well_formed_json_string)
next
  case (object m)
  then show ?case by (intro well_formed_append well_formed_literals)
next
  case (array e)
  then show ?case by (intro well_formed_append well_formed_literals)
next
  case (member k v)
  have "well_formed k" using member(1) by (rule well_formed_json_string)
  then show ?case using member(3) by (intro well_formed_append well_formed_literals)
next
  case (more_members m r)
  then show ?case by (intro well_formed_append well_formed_literals)
next
  case (more_elements v r)
  then show ?case by (intro well_formed_append well_formed_literals)
qed (simp_all add: well_formed_literals)

lemma utf8_decode_json: "json_value t \<Longrightarrow> utf8_decode (utf8 t) = Some t"
  by (intro utf8_decode_utf8 well_formed_json)

lemma those_map_Some: "those (map Some xs) = Some xs"
  by (induction xs) simp_all

lemma read_header_written:
  assumes "readUInt32BE prefix = length bytes" "length prefix = 4"
  shows "read_header (map Some (prefix @ bytes @ payload) @ rest) = utf8_decode bytes"
proof -
  have a: "take 4 (map Some (prefix @ bytes @ payload) @ rest) = map Some prefix"
    using assms(2) by simp
  have b: "take (length bytes) (drop 4 (map Some (prefix @ bytes @ payload) @ rest)) = map Some bytes"
    using assms(2) by simp
  show ?thesis
    unfolding read_header_def a those_map_Some using assms b by (simp add: those_map_Some)
qed

lemma json_number_fraction:
  assumes "json_int ip" "json_digits ds" "sg = [] \<or> sg = [0x2D]"
  shows "json_number (sg @ ip @ 0x2E # ds)"
proof -
  let ?s = "sg @ ip @ 0x2E # ds"
  define s1 where "s1 = (if take 1 ?s = [0x2D] then tl ?s else ?s)"
  define s2 where "s2 = dropWhile is_digit s1"
  define fp where "fp = (if take 1 s2 = [0x2E] then 0x2E # takeWhile is_digit (tl s2) else [])"
  define ep where "ep = drop (length fp) s2"
  have eq: "json_number ?s = (json_int (takeWhile is_digit s1) \<and> json_frac fp \<and> json_exp ep)"
    unfolding json_number_def Let_def s1_def s2_def fp_def ep_def by (rule refl)
  have i: "ip \<noteq> []" "list_all is_digit ip"
    using assms(1) by (simp_all add: json_int_def json_digits_def)
  then obtain x xs where c: "ip = x # xs" by (cases ip) auto
  then have "is_digit x" using i(2) by simp
  then have x: "x \<noteq> 0x2D" by (auto simp: is_digit_def)
  have d: "ds \<noteq> []" "list_all is_digit ds"
    using assms(2) by (simp_all add: json_digits_def)
  have p: "\<not> is_digit 0x2E" by (simp add: is_digit_def)
  have e1: "s1 = ip @ 0x2E # ds"
    using assms(3) c x by (auto simp: s1_def)
  have tw: "takeWhile is_digit s1 = ip"
    unfolding e1 using i(2) p by (simp add: takeWhile_append2 list_all_iff)
  have e2: "s2 = 0x2E # ds"
    unfolding s2_def e1 using i(2) p by (simp add: dropWhile_append2 list_all_iff)
  have e3: "fp = 0x2E # ds"
    unfolding fp_def e2 using d(2) by (simp add: takeWhile_all)
  have e4: "ep = []"
    unfolding ep_def e2 e3 by simp
  show ?thesis
    unfolding eq tw e3 e4 using assms(1,2) by (simp add: json_frac_def json_exp_def)
qed

lemma json_number_half_fmt: "json_number (half_fmt q)"
proof -
  have "json_digits (js ''5'')"
    by (simp add: json_digits_def js_def is_digit_def)
  then have g: "json_number (sg @ decimal n @ 0x2E # js ''5'')" if "sg = [] \<or> sg = [0x2D]" for sg n
    using that json_int_decimal by (intro json_number_fraction)
  show ?thesis
    using g [of "[]"] g [of "[0x2D]"] by (simp add: half_fmt_def js_def)
qed

section \<open>Properties of the configuration\<close>

lemma constructor_config_fields:
  "includeBinary (constructor_config opts) = (\<not> truthy (opts SKIP_BINARY))"
  "isSubAnimation (constructor_config opts) = opts SUB_ANIM"
  "includeGeometry (constructor_config opts) =
     (\<not> truthy (opts SKIP_BINARY) \<and> \<not> truthy (opts SUB_ANIM) \<and> \<not> is_false (opts (js ''includeGeometry'')))"
  "includeAnimation (constructor_config opts) =
     (\<not> truthy (opts SKIP_BINARY) \<and> \<not> is_false (opts (js ''includeAnimation'')))"
  "includeHierarchy (constructor_config opts) =
     (\<not> truthy (opts SUB_ANIM) \<and> \<not> is_false (opts (js ''includeHierarchy'')))"
  "includeMaterial (constructor_config opts) =
     (\<not> truthy (opts SUB_ANIM) \<and> \<not> is_false (opts (js ''includeMaterial'')))"
  by (simp_all add: constructor_config_def Let_def)

text \<open>
  Claim C5. For every options object the resolved configuration has
  \<open>includeGeometry = includeBinary and not isSubAnimation\<close>,
  \<open>includeAnimation = includeBinary\<close>, \<open>includeHierarchy = not isSubAnimation\<close> and
  \<open>includeMaterial = not isSubAnimation\<close>, each one switched off by an explicit override
  that is exactly \<open>false\<close> and changed by no other override value. Hence geometry and
  animation are included only with binary output, and a sub-animation run has no
  geometry, hierarchy or material whatever the overrides are.
\<close>

theorem config_resolution:
  fixes opts :: options
  defines "c \<equiv> constructor_config opts"
  shows "includeBinary c = (\<not> truthy (opts SKIP_BINARY))
       \<and> isSubAnimation c = opts SUB_ANIM
       \<and> includeGeometry c =
           ((includeBinary c \<and> \<not> truthy (isSubAnimation c)) \<and> opts (js ''includeGeometry'') \<noteq> JBool False)
       \<and> includeAnimation c = (includeBinary c \<and> opts (js ''includeAnimation'') \<noteq> JBool False)
       \<and> includeHierarchy c =
           (\<not> truthy (isSubAnimation c) \<and> opts (js ''includeHierarchy'') \<noteq> JBool False)
       \<and> includeMaterial c =
           (\<not> truthy (isSubAnimation c) \<and> opts (js ''includeMaterial'') \<noteq> JBool False)
       \<and> (includeGeometry c \<longrightarrow> includeBinary c)
       \<and> (includeAnimation c \<longrightarrow> includeBinary c)
       \<and> (truthy (isSubAnimation c) \<longrightarrow>
             \<not> includeGeometry c \<and> \<not> includeHierarchy c \<and> \<not> includeMaterial c)"
  unfolding c_def by (simp add: constructor_config_fields is_false_def)

theorem config_resolution_witness:
  "truthy (isSubAnimation (constructor_config (cli_options (js ''.'') [SUB_ANIM])))
   \<and> includeBinary (constructor_config (cli_options (js ''.'') [SUB_ANIM]))
   \<and> includeAnimation (constructor_config (cli_options (js ''.'') [SUB_ANIM]))
   \<and> \<not> includeGeometry (constructor_config (cli_options (js ''.'') [SUB_ANIM]))
   \<and> \<not> includeHierarchy (constructor_config (cli_options (js ''.'') [SUB_ANIM]))
   \<and> \<not> includeMaterial (constructor_config (cli_options (js ''.'') [SUB_ANIM]))"
  using config_resolution [of "cli_options (js ''.'') [SUB_ANIM]"]
  by (simp add: cli_options_def SUB_ANIM_def SKIP_BINARY_def js_def options_of_def
      object_assign_def set_true_def key_order_def is_array_index_def is_digit_def)


section \<open>The run of the empty scene\<close>

lemma header_text_empty_scene: "header_text no_fmt id empty_scene = js ''{}''"
  by (simp add: header_text_def prepared_def empty_scene_def
      constructor_config_fields options_of_def is_false_def SKIP_BINARY_def SUB_ANIM_def
      jsonData_def Let_def empty_geometry_def no_animation_def lights_getJSON_def lights_for_in_def
      empty_lights_def key_order_def JSON_stringify_object members_def entries_def
      is_array_index_def js_def is_digit_def)

lemma empty_scene_facts:
  "includeBinary (config empty_scene)" "includeGeometry (config empty_scene)"
  "prepared id empty_scene = empty_geometry"
  "animationData empty_scene = []"
  "declared_size id empty_scene = 0"
  by (simp_all add: empty_scene_def constructor_config_fields options_of_def is_false_def
      SKIP_BINARY_def SUB_ANIM_def prepared_def animationData_def no_animation_def
      declared_size_def empty_geometry_def)

lemma utf8_braces: "utf8 (js ''{}'') = [0x7B, 0x7D]"
  by (simp add: js_def utf8_unit_def is_high_surrogate_def is_low_surrogate_def utf8_code_point_def)

lemma be32_2: "be32 2 = [0, 0, 0, 2]"
  by (simp add: be32_def)

section \<open>The size of the buffer and what fills it\<close>

lemma length_geometry_bytes:
  "length (geometry_bytes float_bits segs)
     = sum_list (map (\<lambda>seg. length (indices seg) * 2 + length (vertices seg) * 4) segs)"
  by (induction segs)
     (simp_all add: geometry_bytes_def segment_bytes_def length_index_bytes length_float_bytes)











section \<open>Runs of the examples\<close>

lemma be32_examples:
  "be32 0x3F800000 = [0x3F, 0x80, 0, 0]" "be32 0x40000000 = [0x40, 0, 0, 0]"
  "be32 1 = [0, 0, 0, 1]" "be32 2 = [0, 0, 0, 2]" "be32 3 = [0, 0, 0, 3]"
  by (simp_all add: be32_def drop_bit_eq_div)

lemma full_scene_facts:
  "includeBinary (config full_scene)" "includeGeometry (config full_scene)"
  "collects_animation full_scene"
  "uses_before_payload (config full_scene) = [PrepareForExport, GetJSON, ByteSize]"
  "prepared id full_scene = triangle_geometry"
  "animationData full_scene = [[2, 3], [1]]"
  "declared_size id full_scene = 26"
  by (simp_all add: full_scene_def constructor_config_fields options_of_def is_false_def
      SKIP_BINARY_def SUB_ANIM_def prepared_def animationData_def two_animations_def
      declared_size_def triangle_geometry_def collects_animation_def uses_before_payload_def
      js_def)

lemma header_text_full_scene: "header_text no_fmt id full_scene = js ''{}''"
  by (simp add: header_text_def full_scene_facts)
     (simp add: full_scene_def constructor_config_fields options_of_def is_false_def
      SKIP_BINARY_def SUB_ANIM_def jsonData_def Let_def triangle_geometry_def two_animations_def
      lights_getJSON_def lights_for_in_def empty_lights_def key_order_def JSON_stringify_object
      members_def entries_def is_array_index_def js_def is_digit_def)

lemma payload_full_scene:
  "payload_bytes id id full_scene =
     [0, 0, 0, 1, 0xFF, 0xFF, 0x3F, 0x80, 0, 0, 0x40, 0, 0, 0,
      0, 0, 0, 2, 0, 0, 0, 3, 0, 0, 0, 1]"
  by (simp add: payload_bytes_def full_scene_facts triangle_geometry_def geometry_bytes_def
      segment_bytes_def index_bytes_def float_bytes_def animation_bytes_def be32_examples)

lemma full_scene_run:
  "writeData no_fmt id id full_scene =
     \<lparr> thrown = None,
       written = [map Some [0, 0, 0, 2, 0x7B, 0x7D,
                            0, 0, 0, 1, 0xFF, 0xFF, 0x3F, 0x80, 0, 0, 0x40, 0, 0, 0,
                            0, 0, 0, 2, 0, 0, 0, 3, 0, 0, 0, 1]],
       ended = True, allocated = 32, finalOffset = 32,
       geometry_uses = [PrepareForExport, GetJSON, ByteSize, GeometryData] \<rparr>"
proof -
  have v: "valid_indices (geometryData (prepared id full_scene))"
    by (simp add: full_scene_facts triangle_geometry_def valid_indices_def valid_index_def)
  have n: "byteLength (header_text no_fmt id full_scene) < 2 ^ 32"
    by (simp add: header_text_full_scene byteLength_def utf8_braces)
  have f: "length (payload_bytes id id full_scene) \<le> declared_size id full_scene"
    by (simp add: payload_full_scene full_scene_facts)
  show ?thesis
    using writeData_binary_ok [OF n full_scene_facts(1) v f]
    by (simp add: header_text_full_scene byteLength_def utf8_braces be32_2 payload_full_scene
        full_scene_facts)
qed


lemma sub_anim_scene_config:
  "includeBinary (config sub_anim_scene)" "\<not> includeGeometry (config sub_anim_scene)"
  "includeAnimation (config sub_anim_scene)" "\<not> includeHierarchy (config sub_anim_scene)"
  by (simp_all add: sub_anim_scene_def constructor_config_fields cli_options_def SUB_ANIM_def
      SKIP_BINARY_def js_def options_of_def object_assign_def set_true_def key_order_def
      is_array_index_def is_digit_def is_false_def)

lemma sub_anim_scene_parts:
  "colladaGeometry sub_anim_scene = triangle_geometry"
  "colladaAnimation sub_anim_scene = two_animations"
  "colladaLighting sub_anim_scene = empty_lights"
  "hierarchy sub_anim_scene = JUndefined"
  by (simp_all add: sub_anim_scene_def)

lemma sub_anim_scene_facts:
  "collects_animation sub_anim_scene"
  "uses_before_payload (config sub_anim_scene) = [ByteSize]"
  "prepared prep sub_anim_scene = triangle_geometry"
  "animationData sub_anim_scene = [[2, 3], [1]]"
  "declared_size prep sub_anim_scene = 26"
  by (simp_all add: sub_anim_scene_config sub_anim_scene_parts prepared_def animationData_def
      two_animations_def declared_size_def triangle_geometry_def collects_animation_def
      uses_before_payload_def js_def)

lemma header_text_sub_anim_scene: "header_text no_fmt prep sub_anim_scene = js ''{}''"
  by (simp add: header_text_def sub_anim_scene_facts)
     (simp add: sub_anim_scene_config sub_anim_scene_parts jsonData_def Let_def two_animations_def
      lights_getJSON_def lights_for_in_def empty_lights_def key_order_def JSON_stringify_object
      members_def entries_def is_array_index_def js_def is_digit_def)

lemma payload_sub_anim_scene:
  "payload_bytes id prep sub_anim_scene =
     [0, 0, 0, 1, 0xFF, 0xFF, 0x3F, 0x80, 0, 0, 0x40, 0, 0, 0,
      0, 0, 0, 2, 0, 0, 0, 3, 0, 0, 0, 1]"
  by (simp add: payload_bytes_def sub_anim_scene_facts triangle_geometry_def geometry_bytes_def
      segment_bytes_def index_bytes_def float_bytes_def animation_bytes_def be32_examples)

lemma sub_anim_scene_run:
  "writeData no_fmt id prep sub_anim_scene =
     \<lparr> thrown = None,
       written = [map Some [0, 0, 0, 2, 0x7B, 0x7D,
                            0, 0, 0, 1, 0xFF, 0xFF, 0x3F, 0x80, 0, 0, 0x40, 0, 0, 0,
                            0, 0, 0, 2, 0, 0, 0, 3, 0, 0, 0, 1]],
       ended = True, allocated = 32, finalOffset = 32,
       geometry_uses = [ByteSize, GeometryData] \<rparr>"
proof -
  have v: "valid_indices (geometryData (prepared prep sub_anim_scene))"
    by (simp add: sub_anim_scene_facts triangle_geometry_def valid_indices_def valid_index_def)
  have n: "byteLength (header_text no_fmt prep sub_anim_scene) < 2 ^ 32"
    by (simp add: header_text_sub_anim_scene byteLength_def utf8_braces)
  have f: "length (payload_bytes id prep sub_anim_scene) \<le> declared_size prep sub_anim_scene"
    by (simp add: payload_sub_anim_scene sub_anim_scene_facts)
  show ?thesis
    using writeData_binary_ok [OF n sub_anim_scene_config(1) v f]
    by (simp add: header_text_sub_anim_scene byteLength_def utf8_braces be32_2
        payload_sub_anim_scene sub_anim_scene_facts)
qed

text \<open>
  Claim C3, amended. \<open>prepareForExport\<close> is invoked exactly once, and before the geometry
  byteSize is read, in every run whose configuration has \<open>includeGeometry\<close>; in a run
  without \<open>includeGeometry\<close> it is never invoked, and yet the geometry byteSize is read
  and added to the buffer size whenever \<open>includeBinary\<close> holds.
\<close>

theorem finalize_before_size:
  fixes fmt :: "rat \<Rightarrow> jsstring" and float_bits :: "'n \<Rightarrow> 32 word"
    and prep :: "'n ColladaGeometry \<Rightarrow> 'n ColladaGeometry" and this :: "'n ColladaConvert"
  defines "uses \<equiv> geometry_uses (writeData fmt float_bits prep this)"
  shows "count_list uses PrepareForExport = (if includeGeometry (config this) then 1 else 0)
       \<and> count_list uses ByteSize = (if includeBinary (config this) then 1 else 0)
       \<and> takeWhile (\<lambda>u. u \<noteq> ByteSize) uses
           = (if includeGeometry (config this) then [PrepareForExport, GetJSON] else [])
       \<and> allocated (writeData fmt float_bits prep this)
           = 4 + byteLength (header_text fmt prep this)
             + (if includeBinary (config this)
                then geometry_byteSize (if includeGeometry (config this)
                                        then prep (colladaGeometry this) else colladaGeometry this)
                     + animation_byteSize (colladaAnimation this)
                else 0)"
  unfolding uses_def
  by (simp add: writeData_uses uses_before_payload_def writeData_allocated buffer_size_def
      declared_size_def prepared_def)

theorem finalize_before_size_counterexample:
  "ByteSize \<in> set (geometry_uses (writeData no_fmt id id sub_anim_scene))
   \<and> PrepareForExport \<notin> set (geometry_uses (writeData no_fmt id id sub_anim_scene))
   \<and> allocated (writeData no_fmt id id sub_anim_scene)
       = 4 + byteLength (header_text no_fmt id sub_anim_scene)
         + geometry_byteSize (colladaGeometry sub_anim_scene)
         + animation_byteSize (colladaAnimation sub_anim_scene)"
  by (simp add: sub_anim_scene_run header_text_sub_anim_scene byteLength_def utf8_braces
      sub_anim_scene_parts triangle_geometry_def two_animations_def)

theorem finalize_before_size_witness:
  "includeGeometry (config full_scene) \<and> includeBinary (config full_scene)
   \<and> geometry_uses (writeData no_fmt id id full_scene)
        = [PrepareForExport, GetJSON, ByteSize, GeometryData]
   \<and> count_list (geometry_uses (writeData no_fmt id id full_scene)) PrepareForExport = 1
   \<and> takeWhile (\<lambda>u. u \<noteq> ByteSize) (geometry_uses (writeData no_fmt id id full_scene))
        = [PrepareForExport, GetJSON]"
  using finalize_before_size [of no_fmt id id full_scene]
  by (simp add: full_scene_facts full_scene_run)

lemma not_valid_indices_iff:
  "\<not> valid_indices segs \<longleftrightarrow> (\<exists>seg \<in> set segs. \<exists>v \<in> set (indices seg). \<not> valid_index v)"
  by (auto simp: valid_indices_def list_all_iff)

lemma valid_indices_iff:
  "valid_indices segs \<longleftrightarrow> (\<forall>seg \<in> set segs. \<forall>i \<in> set (indices seg). 0 \<le> i \<and> i \<le> 65535)"
  by (auto simp: valid_indices_def list_all_iff valid_index_def)

lemma index_bytes_65535: "index_bytes [65535] = [0xFF, 0xFF]"
proof -
  have "(65535 :: byte) = 0xFF" by simp
  then show ?thesis by (simp add: index_bytes_def)
qed


text \<open>
  Claim C4. An index of exactly 65535 is accepted: \<open>writeUIntArray\<close> stores \<open>FF FF\<close>
  for it, as it stores every array of indices between 0 and 65535 as their
  big-endian 16-bit bytes, and a run with \<open>includeBinary\<close> whose indices are all in
  that range, whose header is shorter than \<open>2^32\<close> bytes and whose declared size has
  room for the payload does not throw: its output holds those bytes. An index of
  65536 or more makes \<open>writeUIntArray\<close> throw the value-range error of
  \<open>writeUInt16BE\<close> (the \<open>IndexOverflow\<close> of the format description), so a run with
  \<open>includeBinary\<close> whose geometry holds such an index throws, and throws before
  anything is handed to the output stream. The error is that value-range error
  whenever the declared size has room for the geometry.
\<close>

theorem index_overflow:
  fixes fmt :: "rat \<Rightarrow> jsstring" and float_bits :: "'n \<Rightarrow> 32 word"
    and prep :: "'n ColladaGeometry \<Rightarrow> 'n ColladaGeometry" and this :: "'n ColladaConvert"
  defines "out \<equiv> writeData fmt float_bits prep this"
    and "g \<equiv> prepared prep this"
    and "text \<equiv> header_text fmt prep this"
  shows "(start + 2 \<le> length buf \<longrightarrow>
            writeUIntArray buf start [65535] = Inr (store buf start [0xFF, 0xFF], 2))
       \<and> (list_all (\<lambda>i. 0 \<le> i \<and> i \<le> 65535) xs \<and> start + 2 * length xs \<le> length buf \<longrightarrow>
            writeUIntArray buf start xs = Inr (store buf start (index_bytes xs), 2 * length xs))
       \<and> (w \<in> set ys \<and> 65536 \<le> w \<and> start + 2 * length ys \<le> length buf \<longrightarrow>
            writeUIntArray buf start ys = Inl ValueOutOfRange)
       \<and> (includeBinary (config this) \<and> byteLength text < 2 ^ 32
            \<and> length (payload_bytes float_bits prep this) \<le> declared_size prep this
            \<and> (\<forall>seg \<in> set (geometryData g). \<forall>i \<in> set (indices seg). 0 \<le> i \<and> i \<le> 65535)
          \<longrightarrow> thrown out = None \<and> ended out
              \<and> output_file out
                  = map Some (be32 (of_nat (byteLength text)) @ utf8 text
                              @ geometry_bytes float_bits (geometryData g)
                              @ animation_bytes float_bits (animationData this))
                    @ replicate (declared_size prep this - length (payload_bytes float_bits prep this)) None)
       \<and> (includeBinary (config this) \<and> seg \<in> set (geometryData g)
            \<and> v \<in> set (indices seg) \<and> 65536 \<le> v
          \<longrightarrow> thrown out \<noteq> None \<and> written out = [] \<and> \<not> ended out
              \<and> (length (geometry_bytes float_bits (geometryData g)) \<le> declared_size prep this
                  \<longrightarrow> thrown out = Some ValueOutOfRange))"
proof -
  have b: "writeUIntArray buf start xs = Inr (store buf start (index_bytes xs), 2 * length xs)"
    if h: "list_all (\<lambda>i. 0 \<le> i \<and> i \<le> 65535) xs" "start + 2 * length xs \<le> length buf" for xs
  proof -
    have "list_all valid_index xs"
      using h(1) by (simp add: list_all_iff valid_index_def)
    moreover have "start \<le> length buf" using h(2) by simp
    ultimately show ?thesis
      using h(2) writeUIntArray_Inr [of start buf xs "store buf start (index_bytes xs)" "2 * length xs"]
      by (simp add: length_index_bytes)
  qed
  have a: "start + 2 \<le> length buf \<longrightarrow>
            writeUIntArray buf start [65535] = Inr (store buf start [0xFF, 0xFF], 2)"
    using b [of "[65535]"] by (simp add: index_bytes_65535)
  have c: "writeUIntArray buf start ys = Inl ValueOutOfRange"
    if h: "w \<in> set ys" "65536 \<le> w" "start + 2 * length ys \<le> length buf"
  proof -
    have "\<not> valid_index w" using h(2) by (simp add: valid_index_def)
    then have "\<not> list_all valid_index ys" using h(1) by (auto simp: list_all_iff)
    then show ?thesis
      using h(3) by (intro writeUIntArray_value_error) (simp_all add: length_index_bytes)
  qed
  have d: "thrown out = None \<and> ended out
              \<and> output_file out
                  = map Some (be32 (of_nat (byteLength text)) @ utf8 text
                              @ geometry_bytes float_bits (geometryData g)
                              @ animation_bytes float_bits (animationData this))
                    @ replicate (declared_size prep this - length (payload_bytes float_bits prep this)) None"
    if h: "includeBinary (config this)" "byteLength text < 2 ^ 32"
      "length (payload_bytes float_bits prep this) \<le> declared_size prep this"
      "\<forall>seg \<in> set (geometryData g). \<forall>i \<in> set (indices seg). 0 \<le> i \<and> i \<le> 65535"
  proof -
    have v: "valid_indices (geometryData (prepared prep this))"
      using h(4) by (simp add: valid_indices_iff g_def)
    have t: "thrown out = None"
      using h(1,2,3) v by (simp add: out_def text_def writeData_thrown_iff)
    show ?thesis
      using t h(1) writeData_success(1,3) [of fmt float_bits prep this]
      by (simp add: out_def text_def g_def output_file_def payload_bytes_def)
  qed
  have e: "thrown out \<noteq> None \<and> written out = [] \<and> \<not> ended out
              \<and> (length (geometry_bytes float_bits (geometryData g)) \<le> declared_size prep this
                  \<longrightarrow> thrown out = Some ValueOutOfRange)"
    if h: "includeBinary (config this)" "seg \<in> set (geometryData g)"
      "v \<in> set (indices seg)" "65536 \<le> v"
  proof -
    have "\<not> valid_index v"
      using h(4) by (simp add: valid_index_def)
    then have nv: "\<not> valid_indices (geometryData (prepared prep this))"
      using h(2,3) unfolding not_valid_indices_iff g_def by blast
    have t: "thrown out \<noteq> None"
      using nv h(1) by (simp add: out_def writeData_thrown_iff)
    have e: "thrown out = Some ValueOutOfRange"
      if "length (geometry_bytes float_bits (geometryData g)) \<le> declared_size prep this"
    proof (cases "byteLength (header_text fmt prep this) < 2 ^ 32")
      case True
      show ?thesis
        using writeData_binary_value_error [OF True h(1) nv] that by (simp add: out_def g_def)
    next
      case False
      show ?thesis
        using writeData_header_too_long [OF False, where float_bits = float_bits]
        by (simp add: out_def)
    qed
    show ?thesis
      using t e writeData_failure [of fmt float_bits prep this] by (simp add: out_def)
  qed
  show ?thesis using a b [of xs] c d e by blast
qed


lemma overflow_scene_facts:
  "includeBinary (config overflow_scene)"
  "prepared id overflow_scene = overflow_geometry"
  "declared_size id overflow_scene = 26"
  by (simp_all add: overflow_scene_def constructor_config_fields options_of_def is_false_def
      SKIP_BINARY_def SUB_ANIM_def prepared_def two_animations_def declared_size_def
      overflow_geometry_def)

theorem index_overflow_witness:
  "writeUIntArray (new_Buffer 2) 0 [65535] = Inr ([Some 0xFF, Some 0xFF], 2)
   \<and> writeUIntArray (new_Buffer 6) 0 [0, 65536, 2] = Inl ValueOutOfRange
   \<and> includeBinary (config full_scene)
   \<and> 65535 \<in> set (indices (hd (geometryData (prepared id full_scene))))
   \<and> thrown (writeData no_fmt id id full_scene) = None
   \<and> output_file (writeData no_fmt id id full_scene)
       = map Some [0, 0, 0, 2, 0x7B, 0x7D,
                   0, 0, 0, 1, 0xFF, 0xFF, 0x3F, 0x80, 0, 0, 0x40, 0, 0, 0,
                   0, 0, 0, 2, 0, 0, 0, 3, 0, 0, 0, 1]
   \<and> includeBinary (config overflow_scene)
   \<and> 65536 \<in> set (indices (hd (geometryData (prepared id overflow_scene))))
   \<and> thrown (writeData no_fmt id id overflow_scene) = Some ValueOutOfRange
   \<and> written (writeData no_fmt id id overflow_scene) = []
   \<and> \<not> ended (writeData no_fmt id id overflow_scene)"
proof -
  have s: "hd (geometryData overflow_geometry) \<in> set (geometryData overflow_geometry)"
    "65536 \<in> set (indices (hd (geometryData overflow_geometry)))"
    by (simp_all add: overflow_geometry_def)
  have l: "length (geometry_bytes id (geometryData overflow_geometry)) \<le> 26"
    by (simp add: length_geometry_bytes overflow_geometry_def)
  have b: "store (new_Buffer 2) 0 [0xFF, 0xFF] = [Some 0xFF, Some 0xFF]"
    by (simp add: store_def new_Buffer_def)
  have n: "length (new_Buffer 2) = 2" "length (new_Buffer 6) = 6"
    by (simp_all add: new_Buffer_def)
  have i: "65535 \<in> set (indices (hd (geometryData (prepared id full_scene))))"
    by (simp add: full_scene_facts triangle_geometry_def)
  note t = index_overflow [where start = 0 and buf = "new_Buffer 2" and xs = "[]"
        and ys = "[]" and v = 65536 and this = overflow_scene and prep = id and float_bits = id
        and fmt = no_fmt and seg = "hd (geometryData overflow_geometry)"]
  note u = index_overflow [where start = 0 and buf = "new_Buffer 6" and xs = "[]"
        and ys = "[0, 65536, 2]" and w = 65536 and this = full_scene and prep = id
        and float_bits = id and fmt = no_fmt]
  have o: "thrown (writeData no_fmt id id overflow_scene) = Some ValueOutOfRange
      \<and> written (writeData no_fmt id id overflow_scene) = []
      \<and> \<not> ended (writeData no_fmt id id overflow_scene)"
    using t s l by (simp add: overflow_scene_facts)
  have p: "writeUIntArray (new_Buffer 2) 0 [65535] = Inr ([Some 0xFF, Some 0xFF], 2)"
    using t n b by simp
  have q: "writeUIntArray (new_Buffer 6) 0 [0, 65536, 2] = Inl ValueOutOfRange"
    using u n by simp
  have h: "byteLength (header_text no_fmt id full_scene) < 2 ^ 32"
    "length (payload_bytes id id full_scene) \<le> declared_size id full_scene"
    "\<forall>seg \<in> set (geometryData (prepared id full_scene)). \<forall>i \<in> set (indices seg). 0 \<le> i \<and> i \<le> 65535"
    by (simp_all add: header_text_full_scene byteLength_def utf8_braces payload_full_scene
        full_scene_facts triangle_geometry_def)
  have r: "thrown (writeData no_fmt id id full_scene) = None"
    using u h full_scene_facts(1) by blast
  show ?thesis
    using o p q i s(2) r
    by (simp add: full_scene_facts full_scene_run output_file_def overflow_scene_facts)
qed

text \<open>
  Claim C6. In the binary payload the animation sequences come after all geometry
  segments, in the order of \<open>animationOrder\<close>, each as consecutive big-endian 32-bit
  floats: the output of a successful run with \<open>includeBinary\<close> is the length prefix,
  the header, the bytes of the geometry segments and then, for the names of
  \<open>animationOrder\<close> in that order, the big-endian bytes of the values of each sequence
  (no name when the sequences are not collected), followed only by unwritten cells.
\<close>

theorem animation_order:
  fixes fmt :: "rat \<Rightarrow> jsstring" and float_bits :: "'n \<Rightarrow> 32 word"
    and prep :: "'n ColladaGeometry \<Rightarrow> 'n ColladaGeometry" and this :: "'n ColladaConvert"
  defines "out \<equiv> writeData fmt float_bits prep this"
    and "a \<equiv> colladaAnimation this"
  assumes "thrown out = None" and "includeBinary (config this)"
  shows "\<exists>k. output_file out =
           map Some
             (be32 (of_nat (byteLength (header_text fmt prep this)))
              @ utf8 (header_text fmt prep this)
              @ geometry_bytes float_bits (geometryData (prepared prep this))
              @ concat (map (\<lambda>name. concat (map (\<lambda>x. be32 (float_bits x)) (getAnimationData a name)))
                          (if collects_animation this then animationOrder a else [])))
           @ replicate k None"
proof -
  have "animation_bytes float_bits (animationData this)
      = concat (map (\<lambda>name. concat (map (\<lambda>x. be32 (float_bits x)) (getAnimationData a name)))
                  (if collects_animation this then animationOrder a else []))"
    by (auto simp: animation_bytes_def animationData_def collects_animation_def float_bytes_def
        a_def comp_def)
  then show ?thesis
    using writeData_success(1) [of fmt float_bits prep this] assms(3,4)
    by (auto simp: out_def output_file_def payload_bytes_def)
qed

theorem animation_order_witness:
  "thrown (writeData no_fmt id id full_scene) = None \<and> includeBinary (config full_scene)
   \<and> collects_animation full_scene
   \<and> animationOrder (colladaAnimation full_scene) = [js ''b'', js ''a'']
   \<and> getAnimationData (colladaAnimation full_scene) (js ''b'') = [2, 3]
   \<and> getAnimationData (colladaAnimation full_scene) (js ''a'') = [1]
   \<and> output_file (writeData no_fmt id id full_scene)
       = map Some ([0, 0, 0, 2, 0x7B, 0x7D]
                   @ [0, 0, 0, 1, 0xFF, 0xFF, 0x3F, 0x80, 0, 0, 0x40, 0, 0, 0]
                   @ [0, 0, 0, 2, 0, 0, 0, 3] @ [0, 0, 0, 1])"
  using animation_order [of no_fmt id id full_scene]
  by (simp add: full_scene_run full_scene_facts output_file_def)
     (simp add: full_scene_def two_animations_def js_def)

lemma set_serialized_keys_subset: "set (serialized_keys ps) \<subseteq> fst ` set ps"
  by (auto simp: serialized_keys_def)

lemma jsonData_keys:
  "fst ` set (jsonData this g)
     = (if includeGeometry (config this) then {js ''geometry''} else {})
       \<union> {js ''lights''}
       \<union> (if includeHierarchy (config this) then {js ''hierarchy''} else {})
       \<union> (if collects_animation this then {js ''animation''} else {})"
  by (auto simp: jsonData_def Let_def collects_animation_def js_def)

text \<open>
  Claim C10. With \<open>includeBinary\<close> true and \<open>includeGeometry\<close> false (a sub-animation
  run) the total buffer size still includes the geometry producer's byteSize, and
  the payload of a run that does not throw still holds the index and vertex bytes of
  every geometry segment, before the animation bytes, although the header object has
  no \<open>geometry\<close> key and \<open>prepareForExport\<close> was not called: the payload is gated on
  \<open>includeBinary\<close> only.
\<close>

theorem geometry_written_without_header_key:
  fixes fmt :: "rat \<Rightarrow> jsstring" and float_bits :: "'n \<Rightarrow> 32 word"
    and prep :: "'n ColladaGeometry \<Rightarrow> 'n ColladaGeometry" and this :: "'n ColladaConvert"
  defines "out \<equiv> writeData fmt float_bits prep this"
    and "text \<equiv> header_text fmt prep this"
  assumes "includeBinary (config this)" and "\<not> includeGeometry (config this)"
  shows "allocated out
           = 4 + byteLength text + geometry_byteSize (colladaGeometry this)
             + animation_byteSize (colladaAnimation this)
       \<and> js ''geometry'' \<notin> fst ` set (jsonData this (prepared prep this))
       \<and> js ''geometry'' \<notin> set (serialized_keys (jsonData this (prepared prep this)))
       \<and> text = js ''{'' @ join (js '','') (members fmt (jsonData this (prepared prep this))) @ js ''}''
       \<and> PrepareForExport \<notin> set (geometry_uses out)
       \<and> (thrown out = None \<longrightarrow>
           (\<exists>k. output_file out =
              map Some (be32 (of_nat (byteLength text)) @ utf8 text
                        @ concat (map (\<lambda>seg. index_bytes (indices seg)
                                               @ float_bytes float_bits (vertices seg))
                                    (geometryData (colladaGeometry this)))
                        @ animation_bytes float_bits (animationData this))
              @ replicate k None))"
proof -
  have p: "prepared prep this = colladaGeometry this"
    using assms(4) by (simp add: prepared_def)
  have c1: "allocated out
           = 4 + byteLength text + geometry_byteSize (colladaGeometry this)
             + animation_byteSize (colladaAnimation this)"
    using assms(3) by (simp add: out_def text_def writeData_allocated buffer_size_def declared_size_def p)
  have c2: "js ''geometry'' \<notin> fst ` set (jsonData this (prepared prep this))"
    using assms(4) by (simp add: jsonData_keys js_def)
  have c3: "js ''geometry'' \<notin> set (serialized_keys (jsonData this (prepared prep this)))"
    using c2 set_serialized_keys_subset [of "jsonData this (prepared prep this)"] by blast
  have c4: "text = js ''{'' @ join (js '','') (members fmt (jsonData this (prepared prep this))) @ js ''}''"
    by (simp add: text_def header_text_def JSON_stringify_object)
  have c5: "PrepareForExport \<notin> set (geometry_uses out)"
    using assms(4) by (simp add: out_def writeData_uses uses_before_payload_def)
  have c6: "\<exists>k. output_file out =
              map Some (be32 (of_nat (byteLength text)) @ utf8 text
                        @ concat (map (\<lambda>seg. index_bytes (indices seg)
                                               @ float_bytes float_bits (vertices seg))
                                    (geometryData (colladaGeometry this)))
                        @ animation_bytes float_bits (animationData this))
              @ replicate k None"
    if t: "thrown out = None"
  proof -
    have "segment_bytes float_bits
        = (\<lambda>seg. index_bytes (indices seg) @ float_bytes float_bits (vertices seg))"
      by (rule ext) (simp add: segment_bytes_def)
    then have g: "geometry_bytes float_bits (geometryData (colladaGeometry this))
        = concat (map (\<lambda>seg. index_bytes (indices seg) @ float_bytes float_bits (vertices seg))
                    (geometryData (colladaGeometry this)))"
      by (simp add: geometry_bytes_def)
    show ?thesis
      using writeData_success(1) [of fmt float_bits prep this] t assms(3) g
      by (auto simp: out_def text_def output_file_def payload_bytes_def p)
  qed
  show ?thesis using c1 c2 c3 c4 c5 c6 by blast
qed

theorem geometry_written_without_header_key_witness:
  "includeBinary (config sub_anim_scene) \<and> \<not> includeGeometry (config sub_anim_scene)
   \<and> thrown (writeData no_fmt id id sub_anim_scene) = None
   \<and> allocated (writeData no_fmt id id sub_anim_scene) = 4 + 2 + 14 + 12
   \<and> header_text no_fmt id sub_anim_scene = js ''{}''
   \<and> geometry_uses (writeData no_fmt id id sub_anim_scene) = [ByteSize, GeometryData]
   \<and> output_file (writeData no_fmt id id sub_anim_scene)
       = map Some ([0, 0, 0, 2, 0x7B, 0x7D]
                   @ [0, 0, 0, 1, 0xFF, 0xFF, 0x3F, 0x80, 0, 0, 0x40, 0, 0, 0]
                   @ [0, 0, 0, 2, 0, 0, 0, 3, 0, 0, 0, 1])"
  using geometry_written_without_header_key [of sub_anim_scene no_fmt id id]
  by (simp add: sub_anim_scene_config sub_anim_scene_run header_text_sub_anim_scene output_file_def)

section \<open>Lights\<close>

lemma addLight_unsupported: "unsupported l \<Longrightarrow> addLight ls l = Inr ls"
  by (auto simp: unsupported_def addLight_def store_light_def
      split: node.splits option.splits)

lemma addLights_loop_append:
  "addLights_loop ls (xs @ ys)
     = (case addLights_loop ls xs of Inl e \<Rightarrow> Inl e | Inr ls' \<Rightarrow> addLights_loop ls' ys)"
  by (induction xs arbitrary: ls) (auto split: sum.splits)

lemma addLights_loop_skip:
  "unsupported l \<Longrightarrow> addLights_loop ls (xs @ l # ys) = addLights_loop ls (xs @ ys)"
  by (simp add: addLights_loop_append addLight_unsupported split: sum.splits)

lemma addLights_loop_filter:
  "addLights_loop ls xs = addLights_loop ls (filter (\<lambda>l. \<not> unsupported l) xs)"
  by (induction xs arbitrary: ls) (auto simp: addLight_unsupported split: sum.splits)

lemma has_lights_set: "has_lights (lights_set ls k d)"
proof (cases "k = js ''__proto__''")
  case True
  then show ?thesis by (simp add: has_lights_def lights_set_def)
next
  case False
  have "AList.update k d (own ls) \<noteq> []"
    by (cases "own ls") simp_all
  then show ?thesis using False by (simp add: has_lights_def lights_set_def)
qed

lemma store_light_cases:
  assumes "store_light ls i point spot = Inr ls'"
  shows "(ls' = ls \<and> \<not> truthy_node point \<and> \<not> truthy_node spot) \<or>
         (has_lights ls' \<and> (truthy_node point \<or> truthy_node spot))"
  using assms
  by (auto simp: store_light_def has_lights_set Let_def
      split: option.splits if_splits sum.splits)


lemma addLight_cases:
  assumes "addLight ls l = Inr ls'"
  shows "(ls' = ls \<and> unsupported l) \<or> (has_lights ls' \<and> \<not> unsupported l)"
proof -
  obtain a cs tcs tc where l: "l = Elem (Some a) cs"
    and t: "map_of cs (js ''technique_common'') = Some tcs" "first tcs = Some tc"
    and s: "store_light ls (map_of a (js ''id'')) (technique tc (js ''point''))
              (technique tc (js ''spot'')) = Inr ls'"
    using assms by (auto simp: addLight_def split: node.splits option.splits)
  show ?thesis
    using store_light_cases [OF s] l t by (auto simp: unsupported_def)
qed

lemma addLight_keeps_lights:
  "has_lights ls \<Longrightarrow> addLight ls l = Inr ls' \<Longrightarrow> has_lights ls'"
  using addLight_cases [of ls l ls'] by auto

lemma addLights_loop_has_lights:
  "addLights_loop ls xs = Inr ls' \<Longrightarrow>
   has_lights ls' \<longleftrightarrow> has_lights ls \<or> \<not> list_all unsupported xs"
proof (induction xs arbitrary: ls)
  case Nil
  then show ?case by simp
next
  case (Cons l xs)
  then obtain ls1 where a: "addLight ls l = Inr ls1" and r: "addLights_loop ls1 xs = Inr ls'"
    by (auto split: sum.splits)
  have "has_lights ls' \<longleftrightarrow> has_lights ls1 \<or> \<not> list_all unsupported xs"
    using Cons.IH [OF r] .
  moreover have "has_lights ls1 \<longleftrightarrow> has_lights ls \<or> \<not> unsupported l"
    using addLight_cases [OF a] addLight_keeps_lights [OF _ a] by auto
  ultimately show ?case by auto
qed

lemma not_has_lights_empty: "\<not> has_lights empty_lights"
  by (simp add: has_lights_def empty_lights_def)

lemma ColladaLighting_has_lights:
  assumes "ColladaLighting root_node = Inr ls"
  shows "has_lights ls \<longleftrightarrow> \<not> list_all unsupported (library_lights root_node)"
proof (cases "child root_node (js ''library_lights'')")
  case None
  then show ?thesis using assms
    by (auto simp: ColladaLighting_def library_lights_def not_has_lights_empty)
next
  case (Some libs)
  then obtain lib where f: "first libs = Some lib"
    using assms by (auto simp: ColladaLighting_def split: option.splits)
  show ?thesis
  proof (cases "child lib (js ''light'')")
    case None
    then show ?thesis using assms Some f
      by (auto simp: ColladaLighting_def library_lights_def addLights_def not_has_lights_empty)
  next
    case (Some l)
    then have "addLights_loop empty_lights l = Inr ls" "library_lights root_node = l"
      using assms \<open>child root_node (js ''library_lights'') = Some libs\<close> f
      by (auto simp: ColladaLighting_def library_lights_def addLights_def)
    then show ?thesis
      using addLights_loop_has_lights [of empty_lights l ls] by (simp add: not_has_lights_empty)
  qed
qed

lemma length_key_order: "length (key_order ks) = length ks"
  using sum_length_filter_compl [of is_array_index ks] by (simp add: key_order_def)

lemma lights_for_in_Nil_iff: "lights_for_in ls = [] \<longleftrightarrow> \<not> has_lights ls"
proof (cases "own ls = []")
  case False
  then have "key_order (map fst (own ls)) \<noteq> []"
    using length_key_order [of "map fst (own ls)"] by (metis length_0_conv map_is_Nil_conv)
  then show ?thesis using False by (simp add: lights_for_in_def has_lights_def)
next
  case True
  then show ?thesis
    by (cases "prototype ls")
       (simp_all add: lights_for_in_def has_lights_def key_order_def light_properties_def)
qed

lemma lights_getJSON_cases:
  "lights_getJSON ls = (if has_lights ls then JArray (lights_for_in ls) else JUndefined)"
  "has_lights ls \<Longrightarrow> lights_for_in ls \<noteq> []"
  using lights_for_in_Nil_iff [of ls] by (auto simp: lights_getJSON_def Let_def)

lemma jsonData_eq:
  "jsonData this g =
     (if includeGeometry (config this) then [(js ''geometry'', geometry_getJSON g)] else [])
     @ [(js ''lights'', lights_getJSON (colladaLighting this))]
     @ (if includeHierarchy (config this) then [(js ''hierarchy'', hierarchy this)] else [])
     @ (if collects_animation this
        then [(js ''animation'', animation_getJSON (colladaAnimation this))] else [])"
  by (simp add: jsonData_def Let_def collects_animation_def js_def)

lemma header_keys_not_indices:
  "\<not> is_array_index (js ''geometry'')" "\<not> is_array_index (js ''lights'')"
  "\<not> is_array_index (js ''hierarchy'')" "\<not> is_array_index (js ''animation'')"
  by (simp_all add: is_array_index_def js_def is_digit_def)

lemma entries_jsonData: "entries (jsonData this g) = jsonData this g"
  by (simp add: entries_def jsonData_eq header_keys_not_indices)

lemma lights_key_iff:
  "js ''lights'' \<in> set (serialized_keys (jsonData this g))
     \<longleftrightarrow> has_lights (colladaLighting this)"
proof -
  have k: "js ''lights'' \<noteq> js ''geometry''" "js ''lights'' \<noteq> js ''hierarchy''"
    "js ''lights'' \<noteq> js ''animation''"
    by (simp_all add: js_def)
  have "js ''lights'' \<in> set (serialized_keys (jsonData this g))
     \<longleftrightarrow> \<not> omitted (lights_getJSON (colladaLighting this))"
    unfolding serialized_keys_def entries_jsonData
    using k by (auto simp: jsonData_eq)
  then show ?thesis
    by (simp add: lights_getJSON_cases)
qed

lemma parse_examples:
  "parseInt (js ''255'') = Fin 255" "parseInt (js ''0'') = Fin 0" "parseInt (js ''1'') = Fin 1"
  "parseFloat (js ''45.0'') = Fin 45"
  by (simp_all add: parseInt_def parseFloat_def read_sign_def is_space_def js_def
      radix_digit_def hex_digit_def radix_value_def is_digit_def decimal_value_def
      scale10_def read_exponent_def)

lemma split_examples:
  "split_space (js ''255 0 0'') = [js ''255'', js ''0'', js ''0'']"
  "split_space (js ''1 1 1'') = [js ''1'', js ''1'', js ''1'']"
  by (simp_all add: js_def)

lemma literal_keys:
  "js ''point'' \<noteq> js ''spot''" "js ''spot'' \<noteq> js ''point''"
  "js ''point'' \<noteq> js ''ambient''" "js ''spot'' \<noteq> js ''ambient''"
  "js ''falloff_angle'' \<noteq> js ''color''" "js ''color'' \<noteq> js ''falloff_angle''"
  by (simp_all add: js_def)

lemma addLight_spot:
  "addLight ls (spot_light i) =
     Inr (lights_set ls i \<lparr> light_id = Some i, color = [Fin 255, Fin 0, Fin 0],
                             light_type = Spot, coneAngle = Some (Fin 45) \<rparr>)"
  by (simp add: addLight_def spot_light_def store_light_def technique_def literal_keys
      read_color_def read_coneAngle_def split_examples parse_examples property_key_def)

lemma addLight_point:
  "addLight ls (point_light i) =
     Inr (lights_set ls i \<lparr> light_id = Some i, color = [Fin 1, Fin 1, Fin 1],
                             light_type = Point, coneAngle = None \<rparr>)"
  by (simp add: addLight_def point_light_def store_light_def technique_def literal_keys
      read_color_def split_examples parse_examples property_key_def)

lemma unsupported_ambient: "unsupported (ambient_light i)"
  by (simp add: unsupported_def ambient_light_def technique_def literal_keys)

lemma ColladaLighting_document:
  "ColladaLighting (document lights) = addLights_loop empty_lights lights"
  "library_lights (document lights) = lights"
  by (simp_all add: ColladaLighting_def document_def addLights_def library_lights_def)

lemma has_lights_iff_not_empty: "has_lights ls \<longleftrightarrow> ls \<noteq> empty_lights"
  by (cases ls) (auto simp: has_lights_def empty_lights_def)

lemma lights_getJSON_not_empty_array: "lights_getJSON ls \<noteq> JArray []"
  using lights_getJSON_cases [of ls] by (cases "has_lights ls") auto

text \<open>
  Claim C7. A light record with neither a point nor a spot technique is skipped
  without an error and leaves no trace: the extraction gives what it gives on the
  library without that record. The \<open>lights\<close> key is absent from the JSON header, and
  never present with an empty array, if and only if the extracted light mapping is
  empty, which is the case if and only if every record of the library was such a
  record.
\<close>

theorem unsupported_lights_skipped:
  fixes this :: "'n ColladaConvert"
  shows "(unsupported l \<longrightarrow>
            addLight ls l = Inr ls
            \<and> addLights_loop ls (xs @ l # ys) = addLights_loop ls (xs @ ys))
       \<and> addLights_loop ls xs = addLights_loop ls (filter (\<lambda>l. \<not> unsupported l) xs)
       \<and> (ColladaLighting root_node = Inr ls' \<longrightarrow>
            (ls' = empty_lights \<longleftrightarrow> list_all unsupported (library_lights root_node)))
       \<and> (js ''lights'' \<notin> set (serialized_keys (jsonData this g))
            \<longleftrightarrow> colladaLighting this = empty_lights)
       \<and> lights_getJSON (colladaLighting this) \<noteq> JArray []
       \<and> header_text fmt prep this
           = js ''{'' @ join (js '','') (members fmt (jsonData this (prepared prep this))) @ js ''}''"
proof -
  have a: "unsupported l \<longrightarrow>
            addLight ls l = Inr ls
            \<and> addLights_loop ls (xs @ l # ys) = addLights_loop ls (xs @ ys)"
    using addLight_unsupported [of l ls] addLights_loop_skip [of l ls xs ys] by blast
  have b: "addLights_loop ls xs = addLights_loop ls (filter (\<lambda>l. \<not> unsupported l) xs)"
    by (rule addLights_loop_filter)
  have c: "ColladaLighting root_node = Inr ls' \<longrightarrow>
            (ls' = empty_lights \<longleftrightarrow> list_all unsupported (library_lights root_node))"
    using ColladaLighting_has_lights [of root_node ls'] has_lights_iff_not_empty [of ls'] by blast
  have d: "js ''lights'' \<notin> set (serialized_keys (jsonData this g))
            \<longleftrightarrow> colladaLighting this = empty_lights"
    using lights_key_iff [of this g] has_lights_iff_not_empty [of "colladaLighting this"] by blast
  have e: "lights_getJSON (colladaLighting this) \<noteq> JArray []"
    by (rule lights_getJSON_not_empty_array)
  have f: "header_text fmt prep this
           = js ''{'' @ join (js '','') (members fmt (jsonData this (prepared prep this))) @ js ''}''"
    by (simp add: header_text_def JSON_stringify_object)
  show ?thesis using a b c d e f by blast
qed

theorem unsupported_lights_skipped_witness:
  "unsupported (ambient_light (js ''A''))
   \<and> ColladaLighting (document [ambient_light (js ''A''), point_light (js ''P'')])
       = ColladaLighting (document [point_light (js ''P'')])
   \<and> ColladaLighting (document [point_light (js ''P'')])
       = Inr \<lparr> own = [(js ''P'', \<lparr> light_id = Some (js ''P''), color = [Fin 1, Fin 1, Fin 1],
                                    light_type = Point, coneAngle = None \<rparr>)],
               prototype = None \<rparr>
   \<and> ColladaLighting (document [ambient_light (js ''A'')]) = Inr empty_lights
   \<and> colladaLighting empty_scene = empty_lights
   \<and> js ''lights'' \<notin> set (serialized_keys (jsonData empty_scene (prepared id empty_scene)))
   \<and> header_text no_fmt id empty_scene = js ''{}''"
proof -
  have u: "unsupported (ambient_light (js ''A''))"
    by (rule unsupported_ambient)
  have p: "ColladaLighting (document [point_light (js ''P'')])
       = Inr \<lparr> own = [(js ''P'', \<lparr> light_id = Some (js ''P''), color = [Fin 1, Fin 1, Fin 1],
                                    light_type = Point, coneAngle = None \<rparr>)],
               prototype = None \<rparr>"
    by (simp add: ColladaLighting_document addLight_point lights_set_def empty_lights_def js_def)
  have e: "colladaLighting empty_scene = empty_lights"
    by (simp add: empty_scene_def)
  show ?thesis
    using unsupported_lights_skipped [where l = "ambient_light (js ''A'')" and ls = empty_lights
        and xs = "[]" and ys = "[point_light (js ''P'')]" and this = empty_scene
        and g = "prepared id empty_scene" and fmt = no_fmt and prep = id
        and root_node = "document [ambient_light (js ''A'')]" and ls' = empty_lights] u p e
    by (simp add: ColladaLighting_document header_text_empty_scene addLight_unsupported)
qed

lemma decimal_examples:
  "decimal 255 = js ''255''" "decimal 0 = js ''0''" "decimal 45 = js ''45''"
  by (simp_all add: decimal.simps js_def)

lemma number_to_string_examples:
  "number_to_string fmt 255 = js ''255''" "number_to_string fmt 0 = js ''0''"
  "number_to_string fmt 45 = js ''45''"
  by (simp_all add: number_to_string_def decimal_examples)

lemma ColladaLighting_spot:
  "ColladaLighting (document [spot_light i]) = Inr (lights_set empty_lights i (spot_record i))"
  by (simp add: ColladaLighting_document addLight_spot spot_record_def)

lemma light_properties_spot:
  "light_properties (spot_record i) =
     [(js ''id'', JString i),
      (js ''color'', JArray [JNumber (Fin 255), JNumber (Fin 0), JNumber (Fin 0)]),
      (js ''type'', JString (js ''spot'')),
      (js ''coneAngle'', JNumber (Fin 45))]"
  by (simp add: light_properties_def spot_record_def type_name_def)

lemma key_order_single: "key_order [k] = [k]"
  by (simp add: key_order_def)

lemma lit_scene_header:
  "has_lights ls \<Longrightarrow>
   jsonData (lit_scene ls) (prepared id (lit_scene ls))
     = [(js ''geometry'', JUndefined), (js ''lights'', JArray (lights_for_in ls)),
        (js ''hierarchy'', JUndefined)]"
  by (simp add: jsonData_eq lit_scene_def constructor_config_fields options_of_def is_false_def
      SKIP_BINARY_def SUB_ANIM_def prepared_def empty_geometry_def collects_animation_def
      no_animation_def lights_getJSON_cases)

text \<open>
  Claim C9, at the id \<open>__proto__\<close>. The assignment \<open>this.lights[id] = data\<close> then makes
  the record the prototype of \<open>this.lights\<close> instead of storing it, and \<open>getJSON\<close>
  collects the four inherited property values of the record: the \<open>lights\<close> array of the
  header holds the bare id, colour, type and cone angle, not one record.
\<close>

theorem spot_light_proto:
  "ColladaLighting (document [spot_light (js ''__proto__'')])
     = Inr \<lparr> own = [], prototype = Some (spot_record (js ''__proto__'')) \<rparr>
   \<and> lights_getJSON \<lparr> own = [], prototype = Some (spot_record (js ''__proto__'')) \<rparr>
     = JArray [JString (js ''__proto__''),
               JArray [JNumber (Fin 255), JNumber (Fin 0), JNumber (Fin 0)],
               JString (js ''spot''), JNumber (Fin 45)]
   \<and> header_text no_fmt id (lit_scene \<lparr> own = [], prototype = Some (spot_record (js ''__proto__'')) \<rparr>)
     = js ''{'' @ quote (js ''lights'') @ js '':['' @ quote (js ''__proto__'')
       @ js '',[255,0,0],'' @ quote (js ''spot'') @ js '',45]}''"
proof -
  let ?ls = "\<lparr> own = [], prototype = Some (spot_record (js ''__proto__'')) \<rparr>"
  have a: "ColladaLighting (document [spot_light (js ''__proto__'')]) = Inr ?ls"
    by (simp add: ColladaLighting_spot lights_set_def empty_lights_def)
  have f: "lights_for_in ?ls
     = [JString (js ''__proto__''),
        JArray [JNumber (Fin 255), JNumber (Fin 0), JNumber (Fin 0)],
        JString (js ''spot''), JNumber (Fin 45)]"
    by (simp add: lights_for_in_def key_order_def light_properties_spot)
  have h: "has_lights ?ls"
    by (simp add: has_lights_def)
  have b: "lights_getJSON ?ls
     = JArray [JString (js ''__proto__''),
               JArray [JNumber (Fin 255), JNumber (Fin 0), JNumber (Fin 0)],
               JString (js ''spot''), JNumber (Fin 45)]"
    using h by (simp add: lights_getJSON_cases f)
  have c: "header_text no_fmt id (lit_scene ?ls)
     = js ''{'' @ quote (js ''lights'') @ js '':['' @ quote (js ''__proto__'')
       @ js '',[255,0,0],'' @ quote (js ''spot'') @ js '',45]}''"
    unfolding header_text_def lit_scene_header [OF h] f
    by (simp add: JSON_stringify_def entries_def header_keys_not_indices number_to_string_examples)
       (simp add: js_def)
  show ?thesis using a b c by blast
qed

lemma light_keys_not_indices:
  "\<not> is_array_index (js ''id'')" "\<not> is_array_index (js ''color'')"
  "\<not> is_array_index (js ''type'')" "\<not> is_array_index (js ''coneAngle'')"
  by (simp_all add: is_array_index_def js_def is_digit_def)

text \<open>
  The same scenario for every other id: one spot light with colour \<open>255 0 0\<close> and
  falloff angle \<open>45.0\<close> gives a \<open>lights\<close> array of exactly one record with the light's
  id, type \<open>spot\<close>, colour \<open>[255, 0, 0]\<close> and cone angle 45.
\<close>

theorem spot_light_record:
  assumes "i \<noteq> js ''__proto__''"
  shows "ColladaLighting (document [spot_light i])
           = Inr \<lparr> own = [(i, spot_record i)], prototype = None \<rparr>
       \<and> lights_getJSON \<lparr> own = [(i, spot_record i)], prototype = None \<rparr>
           = JArray [JObject [(js ''id'', JString i),
                              (js ''color'', JArray [JNumber (Fin 255), JNumber (Fin 0), JNumber (Fin 0)]),
                              (js ''type'', JString (js ''spot'')),
                              (js ''coneAngle'', JNumber (Fin 45))]]
       \<and> header_text no_fmt id (lit_scene \<lparr> own = [(i, spot_record i)], prototype = None \<rparr>)
           = js ''{'' @ quote (js ''lights'') @ js '':[{'' @ quote (js ''id'') @ js '':'' @ quote i
             @ js '','' @ quote (js ''color'') @ js '':[255,0,0],'' @ quote (js ''type'') @ js '':''
             @ quote (js ''spot'') @ js '','' @ quote (js ''coneAngle'') @ js '':45}]}''"
proof -
  let ?ls = "\<lparr> own = [(i, spot_record i)], prototype = None \<rparr>"
  have a: "ColladaLighting (document [spot_light i]) = Inr ?ls"
    using assms by (simp add: ColladaLighting_spot lights_set_def empty_lights_def)
  have f: "lights_for_in ?ls = [JObject (light_properties (spot_record i))]"
    by (simp add: lights_for_in_def key_order_single)
  have h: "has_lights ?ls"
    by (simp add: has_lights_def)
  have b: "lights_getJSON ?ls = JArray [JObject (light_properties (spot_record i))]"
    using h by (simp add: lights_getJSON_cases f)
  have c: "header_text no_fmt id (lit_scene ?ls)
           = js ''{'' @ quote (js ''lights'') @ js '':[{'' @ quote (js ''id'') @ js '':'' @ quote i
             @ js '','' @ quote (js ''color'') @ js '':[255,0,0],'' @ quote (js ''type'') @ js '':''
             @ quote (js ''spot'') @ js '','' @ quote (js ''coneAngle'') @ js '':45}]}''"
    unfolding header_text_def lit_scene_header [OF h] f light_properties_spot
    by (simp add: JSON_stringify_def entries_def header_keys_not_indices light_keys_not_indices
        number_to_string_examples)
       (simp add: js_def)
  show ?thesis using a b c by (simp add: light_properties_spot)
qed

theorem spot_light_record_witness:
  "js ''Lamp'' \<noteq> js ''__proto__''
   \<and> ColladaLighting (document [spot_light (js ''Lamp'')])
       = Inr \<lparr> own = [(js ''Lamp'', spot_record (js ''Lamp''))], prototype = None \<rparr>
   \<and> lights_getJSON \<lparr> own = [(js ''Lamp'', spot_record (js ''Lamp''))], prototype = None \<rparr>
       = JArray [JObject [(js ''id'', JString (js ''Lamp'')),
                          (js ''color'', JArray [JNumber (Fin 255), JNumber (Fin 0), JNumber (Fin 0)]),
                          (js ''type'', JString (js ''spot'')),
                          (js ''coneAngle'', JNumber (Fin 45))]]"
proof -
  have n: "js ''Lamp'' \<noteq> js ''__proto__''"
    by (simp add: js_def)
  show ?thesis
    using spot_light_record [OF n] n by simp
qed

section \<open>The length prefix and the header read back\<close>

lemma lamp_scene_facts:
  "includeBinary (config lamp_scene)"
  "prepared id lamp_scene = empty_geometry"
  "animationData lamp_scene = []"
  "declared_size id lamp_scene = 0"
  by (simp_all add: lamp_scene_def lit_scene_def constructor_config_fields options_of_def is_false_def
      SKIP_BINARY_def SUB_ANIM_def prepared_def animationData_def no_animation_def
      declared_size_def empty_geometry_def)

lemma header_text_lamp_scene:
  "header_text fmt id lamp_scene
     = js ''{'' @ quote (js ''lights'') @ js '':[{'' @ quote (js ''id'') @ js '':'' @ quote (js ''Lamp'')
       @ js '','' @ quote (js ''color'') @ js '':[255,0,0],'' @ quote (js ''type'') @ js '':''
       @ quote (js ''spot'') @ js '','' @ quote (js ''coneAngle'') @ js '':45}]}''"
proof -
  let ?ls = "\<lparr> own = [(js ''Lamp'', spot_record (js ''Lamp''))], prototype = None \<rparr>"
  have f: "lights_for_in ?ls = [JObject (light_properties (spot_record (js ''Lamp'')))]"
    by (simp add: lights_for_in_def key_order_single)
  have h: "has_lights ?ls"
    by (simp add: has_lights_def)
  show ?thesis
    unfolding header_text_def lamp_scene_def lit_scene_header [OF h] f light_properties_spot
    by (simp add: JSON_stringify_def entries_def header_keys_not_indices light_keys_not_indices
        number_to_string_examples)
       (simp add: js_def)
qed

lemma length_utf8_le: "length (utf8 s) \<le> 4 * length s"
proof (induction s rule: utf8.induct)
  case 1
  show ?case by simp
next
  case (2 u)
  show ?case using length_utf8_code_point [of "unat u"] by (simp add: utf8_unit_def)
next
  case (3 u v us)
  have a: "length (utf8_unit u) \<le> 4"
    using length_utf8_code_point [of "unat u"] by (simp add: utf8_unit_def)
  have b: "length (utf8_pair u v) \<le> 4"
    unfolding utf8_pair_def by (rule length_utf8_code_point)
  show ?case using 3 a b by auto
qed


text \<open>
  Claim C1. Given that the formatter of numbers writes JSON numbers, the header text
  is a JSON object text, and its UTF-8 encoding decodes back to it. A run throws
  exactly when the header has \<open>2^32\<close> bytes or more or, with \<open>includeBinary\<close>, an index
  is outside 0..65535 or the payload exceeds the declared size; it then hands nothing
  to the stream. In every other run the output begins with the byte length of the
  UTF-8 header as a 4-byte big-endian unsigned integer, the header follows in exactly
  that many bytes, and reading four bytes and then exactly that many and decoding
  them yields the header text, a parseable JSON object.
\<close>

theorem header_length_prefix:
  fixes fmt :: "rat \<Rightarrow> jsstring" and float_bits :: "'n \<Rightarrow> 32 word"
    and prep :: "'n ColladaGeometry \<Rightarrow> 'n ColladaGeometry" and this :: "'n ColladaConvert"
  defines "out \<equiv> writeData fmt float_bits prep this"
    and "text \<equiv> header_text fmt prep this"
  assumes number_format: "\<forall>q. json_number (fmt q)"
  shows "json_object text
       \<and> utf8_decode (utf8 text) = Some text
       \<and> (thrown out = None)
           = (byteLength text < 2 ^ 32
              \<and> (includeBinary (config this) \<longrightarrow>
                   valid_indices (geometryData (prepared prep this))
                   \<and> length (payload_bytes float_bits prep this) \<le> declared_size prep this))
       \<and> (thrown out \<noteq> None \<longrightarrow> written out = [] \<and> output_file out = [])
       \<and> (thrown out = None \<longrightarrow>
             take 4 (output_file out) = map Some (be32 (of_nat (byteLength text)))
             \<and> readUInt32BE (be32 (of_nat (byteLength text))) = byteLength text
             \<and> take (byteLength text) (drop 4 (output_file out)) = map Some (utf8 text)
             \<and> read_header (output_file out) = Some text)"
proof -
  have j: "json_object text"
    unfolding text_def header_text_def using number_format by (intro json_object_stringify) simp
  have d: "utf8_decode (utf8 text) = Some text"
    using j by (intro utf8_decode_json json_obj)
  have t: "(thrown out = None)
           = (byteLength text < 2 ^ 32
              \<and> (includeBinary (config this) \<longrightarrow>
                   valid_indices (geometryData (prepared prep this))
                   \<and> length (payload_bytes float_bits prep this) \<le> declared_size prep this))"
    unfolding out_def text_def by (rule writeData_thrown_iff)
  have f: "thrown out \<noteq> None \<longrightarrow> written out = [] \<and> output_file out = []"
    using writeData_failure [of fmt float_bits prep this] by (simp add: out_def output_file_def)
  have s: "take 4 (output_file out) = map Some (be32 (of_nat (byteLength text)))
             \<and> readUInt32BE (be32 (of_nat (byteLength text))) = byteLength text
             \<and> take (byteLength text) (drop 4 (output_file out)) = map Some (utf8 text)
             \<and> read_header (output_file out) = Some text"
    if ok: "thrown out = None"
  proof -
    have n: "byteLength text < 2 ^ 32"
      using ok t by simp
    have r: "readUInt32BE (be32 (of_nat (byteLength text))) = byteLength text"
      using n by (simp add: readUInt32BE_be32 unat_of_nat32)
    let ?payload = "if includeBinary (config this) then payload_bytes float_bits prep this else []"
    let ?rest = "replicate (if includeBinary (config this)
                   then declared_size prep this - length (payload_bytes float_bits prep this) else 0)
                 (None :: byte option)"
    have w: "output_file out
        = map Some (be32 (of_nat (byteLength text)) @ utf8 text @ ?payload) @ ?rest"
      using ok writeData_success(1) [of fmt float_bits prep this]
      by (simp add: out_def text_def output_file_def)
    have "read_header (output_file out) = utf8_decode (utf8 text)"
      unfolding w using r by (intro read_header_written) (simp_all add: byteLength_def length_be32)
    then have h: "read_header (output_file out) = Some text"
      using d by simp
    have a: "take 4 (output_file out) = map Some (be32 (of_nat (byteLength text)))"
      by (simp add: w length_be32)
    have b: "take (byteLength text) (drop 4 (output_file out)) = map Some (utf8 text)"
      by (simp add: w length_be32 byteLength_def)
    show ?thesis using a r b h by simp
  qed
  show ?thesis using j d t f s by blast
qed

theorem header_length_prefix_witness:
  "(\<forall>q. json_number (half_fmt q))
   \<and> thrown (writeData half_fmt id id lamp_scene) = None
   \<and> header_text half_fmt id lamp_scene
       = js ''{'' @ quote (js ''lights'') @ js '':[{'' @ quote (js ''id'') @ js '':'' @ quote (js ''Lamp'')
         @ js '','' @ quote (js ''color'') @ js '':[255,0,0],'' @ quote (js ''type'') @ js '':''
         @ quote (js ''spot'') @ js '','' @ quote (js ''coneAngle'') @ js '':45}]}''
   \<and> json_object (header_text half_fmt id lamp_scene)
   \<and> read_header (output_file (writeData half_fmt id id lamp_scene))
       = Some (header_text half_fmt id lamp_scene)"
proof -
  have q: "\<forall>q. json_number (half_fmt q)"
    by (simp add: json_number_half_fmt)
  have "length (header_text half_fmt id lamp_scene) < 2 ^ 30"
    unfolding header_text_lamp_scene
    by (simp add: js_def quote_def escape_unit_def is_high_surrogate_def is_low_surrogate_def)
  then have n: "byteLength (header_text half_fmt id lamp_scene) < 2 ^ 32"
    using length_utf8_le [of "header_text half_fmt id lamp_scene"] by (simp add: byteLength_def)
  have p: "valid_indices (geometryData (prepared id lamp_scene))"
    "length (payload_bytes id id lamp_scene) \<le> declared_size id lamp_scene"
    by (simp_all add: lamp_scene_facts empty_geometry_def valid_indices_def payload_bytes_def
        geometry_bytes_def animation_bytes_def)
  note t = header_length_prefix [where fmt = half_fmt and float_bits = id and prep = id
      and this = lamp_scene, OF q]
  have ok: "thrown (writeData half_fmt id id lamp_scene) = None"
    using t n p by blast
  show ?thesis
    using t q ok header_text_lamp_scene [of half_fmt] by blast
qed

section \<open>Command-line flags\<close>

lemma truthy_PARAMS_get:
  "truthy (PARAMS_get k) \<longleftrightarrow> k = SKIP_BINARY \<or> k = SUB_ANIM \<or> k \<in> set Object_prototype_keys"
  by (auto simp: PARAMS_get_def PARAMS_def Object_prototype_keys_def)

lemma check_params_find:
  "check_params ks =
     (case find (\<lambda>k. \<not> truthy (PARAMS_get k)) ks of
        None \<Rightarrow> Inr ()
      | Some k \<Rightarrow> Inl (Error (unknown_param_message k)))"
  by (induction ks) simp_all

lemma set_foldl_set_true:
  "set (foldl set_true acc xs) = set acc \<union> (set xs - {js ''__proto__''})"
  by (induction xs arbitrary: acc) (auto simp: set_true_def)

lemma set_otherArgsMap: "set (otherArgsMap (f # flags)) = set flags - {js ''__proto__''}"
  by (simp add: otherArgsMap_def set_foldl_set_true)

lemma set_key_order: "set (key_order ks) = set ks"
  by (auto simp: key_order_def)

lemma flag_names_not_indices:
  "\<not> is_array_index SKIP_BINARY" "\<not> is_array_index SUB_ANIM"
  by (simp_all add: is_array_index_def SKIP_BINARY_def SUB_ANIM_def js_def is_digit_def)

lemma unknown_param_message_eq:
  "unknown_param_message k
     = js ''Unknown param: '' @ k @ js ''. Allowed params: -skip-binary, -sub-anim''"
  by (simp add: unknown_param_message_def PARAMS_def key_order_def flag_names_not_indices)
     (simp add: SKIP_BINARY_def SUB_ANIM_def js_def)

text \<open>
  What the check of lines 38-42 does achieve. When some flag neither is recognised
  nor names a property of \<open>Object.prototype\<close>, the script throws, before the parser is
  called, an error whose message names an offending flag and the allowed set.
\<close>

theorem unknown_param_rejected:
  assumes "readFile dataFile = Some data" and "flag \<in> set flags"
    and "flag \<noteq> SKIP_BINARY" and "flag \<noteq> SUB_ANIM" and "flag \<notin> set Object_prototype_keys"
  shows "\<exists>k. k \<in> set flags \<and> k \<noteq> SKIP_BINARY \<and> k \<noteq> SUB_ANIM
            \<and> script readFile dirname (dataFile # flags)
                = Inl (Error (js ''Unknown param: '' @ k
                              @ js ''. Allowed params: -skip-binary, -sub-anim''))"
proof -
  let ?ks = "key_order (otherArgsMap (dataFile # flags))"
  have p: "js ''__proto__'' \<in> set Object_prototype_keys"
    by (simp add: Object_prototype_keys_def)
  have "flag \<in> set ?ks"
    using assms(2,5) p by (auto simp: set_key_order set_otherArgsMap)
  moreover have "\<not> truthy (PARAMS_get flag)"
    using assms(3,4,5) by (simp add: truthy_PARAMS_get)
  ultimately obtain k where f: "find (\<lambda>k. \<not> truthy (PARAMS_get k)) ?ks = Some k"
    by (cases "find (\<lambda>k. \<not> truthy (PARAMS_get k)) ?ks") (auto simp: find_None_iff)
  then have k: "k \<in> set ?ks" "\<not> truthy (PARAMS_get k)"
    by (auto simp: find_Some_iff)
  have "k \<in> set flags" "k \<noteq> SKIP_BINARY" "k \<noteq> SUB_ANIM"
    using k by (auto simp: set_key_order set_otherArgsMap truthy_PARAMS_get)
  moreover have "script readFile dirname (dataFile # flags)
      = Inl (Error (js ''Unknown param: '' @ k @ js ''. Allowed params: -skip-binary, -sub-anim''))"
    using assms(1) f by (simp add: script_def check_params_find unknown_param_message_eq)
  ultimately show ?thesis by blast
qed

theorem unknown_param_rejected_witness:
  "script scene_file dirname_dot [js ''scene.dae'', js ''-verbose'']
     = Inl (Error (js ''Unknown param: -verbose. Allowed params: -skip-binary, -sub-anim''))"
proof -
  have a: "scene_file (js ''scene.dae'') = Some (js ''<COLLADA/>'')"
    by (simp add: scene_file_def)
  have b: "js ''-verbose'' \<noteq> SKIP_BINARY" "js ''-verbose'' \<noteq> SUB_ANIM"
    "js ''-verbose'' \<notin> set Object_prototype_keys"
    by (simp_all add: SKIP_BINARY_def SUB_ANIM_def Object_prototype_keys_def js_def)
  have c: "js ''Unknown param: '' @ js ''-verbose'' @ js ''. Allowed params: -skip-binary, -sub-anim''
      = js ''Unknown param: -verbose. Allowed params: -skip-binary, -sub-anim''"
    by (simp add: js_def)
  show ?thesis
    using unknown_param_rejected [where readFile = scene_file and dataFile = "js ''scene.dae''"
        and data = "js ''<COLLADA/>''" and flag = "js ''-verbose''"
        and flags = "[js ''-verbose'']" and dirname = dirname_dot] a b c
    by simp
qed

text \<open>
  Claim C8, at the flag \<open>toString\<close>. It is outside the recognised set, yet
  \<open>PARAMS[key]\<close> finds the method that \<open>PARAMS\<close> inherits from \<open>Object.prototype\<close>, the
  test of line 39 passes, no error is thrown and the script goes on to the parser
  with \<open>toString: true\<close> among the options.
\<close>

theorem inherited_flag_accepted:
  "js ''toString'' \<notin> fst ` set PARAMS
   \<and> PARAMS_get (js ''toString'') = JFunction (js ''toString'')
   \<and> check_params (key_order (otherArgsMap [js ''scene.dae'', js ''toString''])) = Inr ()
   \<and> script scene_file dirname_dot [js ''scene.dae'', js ''toString'']
       = Inr \<lparr> xml_text = js ''<COLLADA/>'',
               request_options = [(js ''directory'', JString (js ''.'')),
                                  (js ''toString'', JBool True)] \<rparr>"
  by (simp add: script_def scene_file_def dirname_dot_def otherArgsMap_def set_true_def
      key_order_def is_array_index_def is_digit_def js_def PARAMS_get_def PARAMS_def
      SKIP_BINARY_def SUB_ANIM_def Object_prototype_keys_def object_assign_def)

end
